theory Spec2Isabelle
  imports
    Complex_Main
    "HOL-Library.FSet"
    "HOL-Library.Finite_Map"
    "HOL-Library.Char_ord"
    "HOL-Library.List_Lexorder"
    "HOL-Library.Signed_Division"
begin

section \<open>The search server of \<^verbatim>\<open>search_server3.cpp\<close>\<close>

text \<open>
  Conventions of the embedding.
  \<^item> \<^verbatim>\<open>std::string\<close> is \<^typ>\<open>string\<close>, a list of bytes; \<^verbatim>\<open>std::set<string>\<close> is a
    \<^typ>\<open>string fset\<close>, iterated in ascending order (\<open>sorted_list_of_fset\<close>, bytewise
    lexicographic, as \<^verbatim>\<open>std::less<string>\<close>); \<^verbatim>\<open>std::map\<close> is an \<open>fmap\<close>, iterated in
    ascending key order (\<open>sorted_list_of_fmap\<close>).
  \<^item> \<^verbatim>\<open>double\<close> is \<^typ>\<open>real\<close>: the arithmetic is the exact one, rounding is not modelled.
  \<^item> \<^verbatim>\<open>int\<close> document ids are \<^typ>\<open>int\<close> (no arithmetic is done on them); the rating sum
    is 32-bit, with the two's complement wrap-around written out (\<open>int32\<close>).
  \<^item> The data members \<^verbatim>\<open>stop_words_\<close>, \<^verbatim>\<open>word_to_document_freqs_\<close>, \<^verbatim>\<open>documents_\<close> and
    \<^verbatim>\<open>ids_\<close> are the fields \<open>m_stop_words\<close>, \<open>m_word_to_document_freqs\<close>,
    \<open>m_documents\<close> and \<open>m_ids\<close>; the field \<^verbatim>\<open>id\<close> of a \<^verbatim>\<open>Document\<close> is \<open>doc_id\<close>.
  \<^item> Every \<^verbatim>\<open>throw\<close> is a value of type \<open>error\<close>; a member function that mutates the
    server returns the server after the call together with the exception, if any.
\<close>

subsection \<open>Constants and plain data\<close>

definition MAX_RESULT_DOCUMENT_COUNT :: nat where
  "MAX_RESULT_DOCUMENT_COUNT = 5"

definition EPSILON :: real where
  "EPSILON = 1 / 1000000"

record Document =
  doc_id :: int
  relevance :: real
  rating :: int

datatype DocumentStatus = ACTUAL | IRRELEVANT | BANNED | REMOVED

datatype error =
    BadStopWords            \<comment> \<open>invalid_argument: Bad constructors stop arguments\<close>
  | DocumentIdExists        \<comment> \<open>invalid_argument: Document ID is already exist\<close>
  | DocumentIdNegative      \<comment> \<open>invalid_argument: Document ID is negative\<close>
  | InvalidWordToAdd        \<comment> \<open>invalid_argument: Invalid word try to add\<close>
  | InvalidRequestText      \<comment> \<open>invalid_argument: Invalid requests text\<close>
  | RawQueryEmpty           \<comment> \<open>invalid_argument: Raw query is empty\<close>
  | InvalidWordToRequest    \<comment> \<open>invalid_argument: Invalid word try to request\<close>
  | WrongDocumentId         \<comment> \<open>invalid_argument: Wrong document ID (it has no exist)\<close>
  | WrongIndex              \<comment> \<open>out_of_range: Wrong index of document\<close>
  | AtOutOfRange            \<comment> \<open>out_of_range thrown by \<^verbatim>\<open>at\<close> of a map or a vector\<close>

record DocumentData =
  data_rating :: int
  data_status :: DocumentStatus

record SearchServer =
  m_stop_words :: "string fset"
  m_word_to_document_freqs :: "(string, (int, real) fmap) fmap"
  m_documents :: "(int, DocumentData) fmap"
  m_ids :: "int list"

record QueryWord =
  data :: string
  is_minus :: bool
  is_stop :: bool

record Query =
  plus_words :: "string fset"
  minus_words :: "string fset"
  stop_words :: "string fset"

subsection \<open>Splitting a text into words\<close>

text \<open>The loop of \<^verbatim>\<open>SplitIntoWords\<close>, with its two variables \<^verbatim>\<open>words\<close> and \<^verbatim>\<open>word\<close>.\<close>

fun SplitIntoWords_loop :: "string \<Rightarrow> string list \<Rightarrow> string \<Rightarrow> string list" where
  "SplitIntoWords_loop [] words word = (if word \<noteq> [] then words @ [word] else words)"
| "SplitIntoWords_loop (c # text) words word =
     (if c = CHR '' ''
      then (if word \<noteq> [] then SplitIntoWords_loop text (words @ [word]) []
            else SplitIntoWords_loop text words word)
      else SplitIntoWords_loop text words (word @ [c]))"

definition SplitIntoWords :: "string \<Rightarrow> string list" where
  "SplitIntoWords text = SplitIntoWords_loop text [] []"

definition MakeUniqueNonEmptyStrings :: "string list \<Rightarrow> string fset" where
  "MakeUniqueNonEmptyStrings strings = fset_of_list (filter (\<lambda>str. str \<noteq> []) strings)"

subsection \<open>Private helpers of the class\<close>

text \<open>
  \<^verbatim>\<open>c >= '\0' && c < ' '\<close>: the bytes 0 to 31. (Where \<^verbatim>\<open>char\<close> is signed the bytes from 128
  on are negative, where it is unsigned they are above 31: not special either way.)
\<close>

definition is_special :: "char \<Rightarrow> bool" where
  "is_special c = ((of_char c :: nat) < 32)"

definition IsValidWord :: "string \<Rightarrow> bool" where
  "IsValidWord word = list_all (\<lambda>c. \<not> is_special c) word"

definition IsStopWord :: "SearchServer \<Rightarrow> string \<Rightarrow> bool" where
  "IsStopWord s word = (word |\<in>| m_stop_words s)"

fun SplitIntoWordsNoStop_loop ::
  "SearchServer \<Rightarrow> string list \<Rightarrow> string list \<Rightarrow> error + string list" where
  "SplitIntoWordsNoStop_loop s [] words = Inr words"
| "SplitIntoWordsNoStop_loop s (word # rest) words =
     (if \<not> IsValidWord word then Inl InvalidWordToAdd
      else if \<not> IsStopWord s word then SplitIntoWordsNoStop_loop s rest (words @ [word])
      else SplitIntoWordsNoStop_loop s rest words)"

definition SplitIntoWordsNoStop :: "SearchServer \<Rightarrow> string \<Rightarrow> error + string list" where
  "SplitIntoWordsNoStop s text = SplitIntoWordsNoStop_loop s (SplitIntoWords text) []"

text \<open>A 32-bit \<^verbatim>\<open>int\<close> holding the value \<open>x\<close> after wrap-around.\<close>

definition int32 :: "int \<Rightarrow> int" where
  "int32 x = (x + 2 ^ 31) mod 2 ^ 32 - 2 ^ 31"

text \<open>
  \<^verbatim>\<open>rating_sum += rating\<close> in an \<^verbatim>\<open>int\<close>, then the division of two \<^verbatim>\<open>int\<close>s, which
  truncates towards zero (\<open>sdiv\<close>).
\<close>

definition ComputeAverageRating :: "int list \<Rightarrow> int" where
  "ComputeAverageRating ratings =
     (if ratings = [] then 0
      else let rating_sum = fold (\<lambda>rating rating_sum. int32 (rating_sum + rating)) ratings 0
           in rating_sum sdiv int32 (int (length ratings)))"

subsection \<open>Construction\<close>

definition SearchServer_default :: SearchServer where
  "SearchServer_default =
     \<lparr>m_stop_words = {||}, m_word_to_document_freqs = fmempty, m_documents = fmempty, m_ids = []\<rparr>"

text \<open>The constructor from a container of strings: the member is initialised, then every
  given word is checked.\<close>

definition SearchServer_of_container :: "string list \<Rightarrow> error + SearchServer" where
  "SearchServer_of_container stop_words_arg =
     (let s = SearchServer_default\<lparr>m_stop_words := MakeUniqueNonEmptyStrings stop_words_arg\<rparr>
      in if list_all IsValidWord stop_words_arg then Inr s else Inl BadStopWords)"

definition SearchServer_of_text :: "string \<Rightarrow> error + SearchServer" where
  "SearchServer_of_text stop_words_text = SearchServer_of_container (SplitIntoWords stop_words_text)"

subsection \<open>Documents\<close>

definition GetDocumentCount :: "SearchServer \<Rightarrow> int" where
  "GetDocumentCount s = int (fcard (fmdom (m_documents s)))"

definition GetDocumentId :: "SearchServer \<Rightarrow> int \<Rightarrow> error + int" where
  "GetDocumentId s index =
     (if index \<ge> 0 \<and> index < GetDocumentCount s
      then (if nat index < length (m_ids s) then Inr (m_ids s ! nat index) else Inl AtOutOfRange)
      else Inl WrongIndex)"

text \<open>\<^verbatim>\<open>word_to_document_freqs_[word][document_id] += inv_word_count\<close>: both \<^verbatim>\<open>operator[]\<close>
  create a missing entry (an empty map, the value 0.0).\<close>

definition add_freq ::
  "int \<Rightarrow> real \<Rightarrow> string \<Rightarrow> (string, (int, real) fmap) fmap \<Rightarrow> (string, (int, real) fmap) fmap" where
  "add_freq document_id inv_word_count word freqs =
     (let posting = (case fmlookup freqs word of None \<Rightarrow> fmempty | Some m \<Rightarrow> m);
          old = (case fmlookup posting document_id of None \<Rightarrow> 0 | Some v \<Rightarrow> v)
      in fmupd word (fmupd document_id (old + inv_word_count) posting) freqs)"

text \<open>
  \<^verbatim>\<open>AddDocument\<close> returns the server after the call and the exception thrown, if any.
  With no word left, \<^verbatim>\<open>1.0 / words.size()\<close> is an infinity that the empty loop never uses
  (here it is \<open>1 / 0 = 0\<close>, unused as well). \<^verbatim>\<open>emplace\<close> finds no entry for the id, which
  the first check has excluded, so it stores.
\<close>

definition AddDocument ::
  "SearchServer \<Rightarrow> int \<Rightarrow> string \<Rightarrow> DocumentStatus \<Rightarrow> int list \<Rightarrow> SearchServer \<times> error option" where
  "AddDocument s document_id document status ratings =
     (if document_id |\<in>| fmdom (m_documents s) then (s, Some DocumentIdExists)
      else if document_id < 0 then (s, Some DocumentIdNegative)
      else case SplitIntoWordsNoStop s document of
             Inl e \<Rightarrow> (s, Some e)
           | Inr words \<Rightarrow>
               (let inv_word_count = 1 / real (length words);
                    freqs = fold (add_freq document_id inv_word_count) words
                              (m_word_to_document_freqs s)
                in (s\<lparr>m_word_to_document_freqs := freqs,
                      m_documents := fmupd document_id
                         \<lparr>data_rating = ComputeAverageRating ratings, data_status = status\<rparr>
                         (m_documents s),
                      m_ids := m_ids s @ [document_id]\<rparr>, None)))"

subsection \<open>Queries\<close>

text \<open>\<^verbatim>\<open>text[0]\<close> of an empty string is the terminating zero byte, which is not a minus.\<close>

definition ParseQueryWord :: "SearchServer \<Rightarrow> string \<Rightarrow> error + QueryWord" where
  "ParseQueryWord s text0 =
     (let minus = (case text0 of [] \<Rightarrow> False | c # _ \<Rightarrow> c = CHR ''-'');
          text = (if minus then tl text0 else text0)
      in if text = [] \<or> (case text of [] \<Rightarrow> False | c # _ \<Rightarrow> c = CHR ''-'') \<or> \<not> IsValidWord text
         then Inl InvalidWordToRequest
         else Inr \<lparr>data = text, is_minus = minus, is_stop = IsStopWord s text\<rparr>)"

definition empty_Query :: Query where
  "empty_Query = \<lparr>plus_words = {||}, minus_words = {||}, stop_words = {||}\<rparr>"

fun ParseQuery_loop :: "SearchServer \<Rightarrow> string list \<Rightarrow> Query \<Rightarrow> error + Query" where
  "ParseQuery_loop s [] query = Inr query"
| "ParseQuery_loop s (word # rest) query =
     (case ParseQueryWord s word of
        Inl e \<Rightarrow> Inl e
      | Inr query_word \<Rightarrow>
          if data query_word = [] then Inr empty_Query
          else if \<not> is_stop query_word then
            (if is_minus query_word
             then ParseQuery_loop s rest
                    (query\<lparr>minus_words := finsert (data query_word) (minus_words query)\<rparr>)
             else ParseQuery_loop s rest
                    (query\<lparr>plus_words := finsert (data query_word) (plus_words query)\<rparr>))
          else ParseQuery_loop s rest (query\<lparr>stop_words := finsert word (stop_words query)\<rparr>))"

definition ParseQuery :: "SearchServer \<Rightarrow> string \<Rightarrow> error + Query" where
  "ParseQuery s text = ParseQuery_loop s (SplitIntoWords text) empty_Query"

subsection \<open>Ranking\<close>

text \<open>
  \<^verbatim>\<open>log(GetDocumentCount() * 1.0 / word_to_document_freqs_.at(word).size())\<close>; \<^verbatim>\<open>at\<close>
  throws when the word has no posting.
\<close>

definition ComputeWordInverseDocumentFreq :: "SearchServer \<Rightarrow> string \<Rightarrow> error + real" where
  "ComputeWordInverseDocumentFreq s word =
     (case fmlookup (m_word_to_document_freqs s) word of
        None \<Rightarrow> Inl AtOutOfRange
      | Some posting \<Rightarrow>
          Inr (ln (real_of_int (GetDocumentCount s) * 1 / real (fcard (fmdom posting)))))"

text \<open>\<^verbatim>\<open>document_to_relevance[document_id] += x\<close>, a missing entry starting at 0.0.\<close>

definition add_relevance :: "int \<Rightarrow> real \<Rightarrow> (int, real) fmap \<Rightarrow> (int, real) fmap" where
  "add_relevance document_id x document_to_relevance =
     fmupd document_id
       ((case fmlookup document_to_relevance document_id of None \<Rightarrow> 0 | Some v \<Rightarrow> v) + x)
       document_to_relevance"

type_synonym DocumentPredicate = "int \<Rightarrow> DocumentStatus \<Rightarrow> int \<Rightarrow> bool"

text \<open>The inner loop over the posting of one plus word.\<close>

fun plus_posting_loop ::
  "SearchServer \<Rightarrow> DocumentPredicate \<Rightarrow> real \<Rightarrow> (int \<times> real) list \<Rightarrow> (int, real) fmap
     \<Rightarrow> error + (int, real) fmap" where
  "plus_posting_loop s document_predicate inverse_document_freq [] document_to_relevance =
     Inr document_to_relevance"
| "plus_posting_loop s document_predicate inverse_document_freq ((document_id, term_freq) # rest)
     document_to_relevance =
     (case fmlookup (m_documents s) document_id of
        None \<Rightarrow> Inl AtOutOfRange
      | Some document_data \<Rightarrow>
          if document_predicate document_id (data_status document_data) (data_rating document_data)
          then plus_posting_loop s document_predicate inverse_document_freq rest
                 (add_relevance document_id (term_freq * inverse_document_freq)
                    document_to_relevance)
          else plus_posting_loop s document_predicate inverse_document_freq rest
                 document_to_relevance)"

text \<open>The loop over the plus words.\<close>

fun plus_words_loop ::
  "SearchServer \<Rightarrow> DocumentPredicate \<Rightarrow> string list \<Rightarrow> (int, real) fmap
     \<Rightarrow> error + (int, real) fmap" where
  "plus_words_loop s document_predicate [] document_to_relevance = Inr document_to_relevance"
| "plus_words_loop s document_predicate (word # rest) document_to_relevance =
     (case fmlookup (m_word_to_document_freqs s) word of
        None \<Rightarrow> plus_words_loop s document_predicate rest document_to_relevance
      | Some posting \<Rightarrow>
          (case ComputeWordInverseDocumentFreq s word of
             Inl e \<Rightarrow> Inl e
           | Inr inverse_document_freq \<Rightarrow>
               (case plus_posting_loop s document_predicate inverse_document_freq
                       (sorted_list_of_fmap posting) document_to_relevance of
                  Inl e \<Rightarrow> Inl e
                | Inr document_to_relevance' \<Rightarrow>
                    plus_words_loop s document_predicate rest document_to_relevance')))"

text \<open>The loop over the minus words, erasing every document of each posting.\<close>

fun minus_words_loop :: "SearchServer \<Rightarrow> string list \<Rightarrow> (int, real) fmap \<Rightarrow> (int, real) fmap" where
  "minus_words_loop s [] document_to_relevance = document_to_relevance"
| "minus_words_loop s (word # rest) document_to_relevance =
     (case fmlookup (m_word_to_document_freqs s) word of
        None \<Rightarrow> minus_words_loop s rest document_to_relevance
      | Some posting \<Rightarrow>
          minus_words_loop s rest
            (fold (\<lambda>(document_id, _). fmdrop document_id) (sorted_list_of_fmap posting)
               document_to_relevance))"

text \<open>The last loop, which builds the result vector.\<close>

fun result_loop ::
  "SearchServer \<Rightarrow> (int \<times> real) list \<Rightarrow> Document list \<Rightarrow> error + Document list" where
  "result_loop s [] result = Inr result"
| "result_loop s ((document_id, relevance_arg) # rest) result =
     (case fmlookup (m_documents s) document_id of
        None \<Rightarrow> Inl AtOutOfRange
      | Some document_data \<Rightarrow>
          result_loop s rest
            (result @ [\<lparr>doc_id = document_id, relevance = relevance_arg,
                        rating = data_rating document_data\<rparr>]))"

definition FindAllDocuments ::
  "SearchServer \<Rightarrow> Query \<Rightarrow> DocumentPredicate \<Rightarrow> error + Document list" where
  "FindAllDocuments s query document_predicate =
     (case plus_words_loop s document_predicate (sorted_list_of_fset (plus_words query)) fmempty of
        Inl e \<Rightarrow> Inl e
      | Inr document_to_relevance \<Rightarrow>
          result_loop s
            (sorted_list_of_fmap
               (minus_words_loop s (sorted_list_of_fset (minus_words query))
                  document_to_relevance))
            [])"

text \<open>The comparator handed to \<^verbatim>\<open>sort\<close>.\<close>

definition compare_documents :: "Document \<Rightarrow> Document \<Rightarrow> bool" where
  "compare_documents lhs rhs =
     (if \<bar>relevance lhs - relevance rhs\<bar> < EPSILON then rating lhs > rating rhs
      else relevance lhs > relevance rhs)"

text \<open>
  \<^verbatim>\<open>std::sort\<close> is a library routine, fixed by its contract only: given a comparator
  that is a strict weak ordering, it leaves the elements sorted. It is modelled by the
  insertion sort that libstdc++ runs on a range of at most 16 elements: each element in
  turn goes to the front when it precedes the first element, and else moves left past the
  elements that it precedes. The sorted prefix is held in reverse, so that its first
  element is the last one of the list.
\<close>

fun linear_insert :: "('a \<Rightarrow> 'a \<Rightarrow> bool) \<Rightarrow> 'a \<Rightarrow> 'a list \<Rightarrow> 'a list" where
  "linear_insert cmp val [] = [val]"
| "linear_insert cmp val (y # ys) =
     (if cmp val y then y # linear_insert cmp val ys else val # y # ys)"

definition insertion_step :: "('a \<Rightarrow> 'a \<Rightarrow> bool) \<Rightarrow> 'a list \<Rightarrow> 'a \<Rightarrow> 'a list" where
  "insertion_step cmp prefix val =
     (if prefix \<noteq> [] \<and> cmp val (last prefix) then prefix @ [val]
      else linear_insert cmp val prefix)"

definition std_sort :: "('a \<Rightarrow> 'a \<Rightarrow> bool) \<Rightarrow> 'a list \<Rightarrow> 'a list" where
  "std_sort cmp xs = rev (foldl (insertion_step cmp) [] xs)"

definition is_degenerate :: "Query \<Rightarrow> bool" where
  "is_degenerate query =
     (plus_words query = {||} \<and> minus_words query = {||} \<and> stop_words query \<noteq> {||})"

definition FindTopDocuments ::
  "SearchServer \<Rightarrow> string \<Rightarrow> DocumentPredicate \<Rightarrow> error + Document list" where
  "FindTopDocuments s raw_query document_predicate =
     (if \<not> IsValidWord raw_query then Inl InvalidRequestText
      else if raw_query = [] then Inl RawQueryEmpty
      else case ParseQuery s raw_query of
             Inl e \<Rightarrow> Inl e
           | Inr query \<Rightarrow>
               if is_degenerate query then Inr []
               else (case FindAllDocuments s query document_predicate of
                       Inl e \<Rightarrow> Inl e
                     | Inr result \<Rightarrow>
                         Inr (if length (std_sort compare_documents result)
                                   > MAX_RESULT_DOCUMENT_COUNT
                              then take MAX_RESULT_DOCUMENT_COUNT
                                     (std_sort compare_documents result)
                              else std_sort compare_documents result)))"

definition FindTopDocuments_status ::
  "SearchServer \<Rightarrow> string \<Rightarrow> DocumentStatus \<Rightarrow> error + Document list" where
  "FindTopDocuments_status s raw_query status =
     FindTopDocuments s raw_query (\<lambda>document_id document_status rating. document_status = status)"

definition FindTopDocuments_actual :: "SearchServer \<Rightarrow> string \<Rightarrow> error + Document list" where
  "FindTopDocuments_actual s raw_query = FindTopDocuments_status s raw_query ACTUAL"

subsection \<open>Matching\<close>

definition in_posting :: "SearchServer \<Rightarrow> string \<Rightarrow> int \<Rightarrow> bool" where
  "in_posting s word document_id =
     (case fmlookup (m_word_to_document_freqs s) word of
        None \<Rightarrow> False
      | Some posting \<Rightarrow> document_id |\<in>| fmdom posting)"

text \<open>The loop over the minus words of \<^verbatim>\<open>MatchDocument\<close>: the first hit clears the matched
  words and leaves the loop.\<close>

fun match_minus_loop :: "SearchServer \<Rightarrow> int \<Rightarrow> string list \<Rightarrow> string list \<Rightarrow> string list" where
  "match_minus_loop s document_id [] matched_words = matched_words"
| "match_minus_loop s document_id (word # rest) matched_words =
     (if in_posting s word document_id then []
      else match_minus_loop s document_id rest matched_words)"

definition MatchDocument ::
  "SearchServer \<Rightarrow> string \<Rightarrow> int \<Rightarrow> error + (string list \<times> DocumentStatus)" where
  "MatchDocument s raw_query document_id =
     (if document_id |\<notin>| fmdom (m_documents s) then Inl WrongDocumentId
      else case ParseQuery s raw_query of
             Inl e \<Rightarrow> Inl e
           | Inr query \<Rightarrow>
               if is_degenerate query then Inr ([], ACTUAL)
               else (let matched_words =
                           filter (\<lambda>word. in_posting s word document_id)
                             (sorted_list_of_fset (plus_words query));
                         matched_words' =
                           match_minus_loop s document_id
                             (sorted_list_of_fset (minus_words query)) matched_words
                     in case fmlookup (m_documents s) document_id of
                          None \<Rightarrow> Inl AtOutOfRange
                        | Some document_data \<Rightarrow>
                            Inr (matched_words', data_status document_data)))"

subsection \<open>Reachable servers\<close>

text \<open>A server is reachable when a constructor has built it and calls of \<^verbatim>\<open>AddDocument\<close>
  that returned normally have filled it.\<close>

inductive reachable :: "SearchServer \<Rightarrow> bool" where
  reachable_default: "reachable SearchServer_default"
| reachable_container: "SearchServer_of_container stop_words_arg = Inr s \<Longrightarrow> reachable s"
| reachable_add:
    "reachable s \<Longrightarrow> AddDocument s document_id document status ratings = (s', None)
       \<Longrightarrow> reachable s'"

subsection \<open>Notions used to state the properties\<close>

text \<open>The mean of the ratings, truncated towards zero, on the unbounded integers.\<close>

definition truncated_mean :: "int list \<Rightarrow> int" where
  "truncated_mean ratings =
     (if ratings = [] then 0
      else sgn (sum_list ratings) * (\<bar>sum_list ratings\<bar> div int (length ratings)))"

text \<open>The number of ratings and every running sum of the ratings fit a 32-bit \<^verbatim>\<open>int\<close>.\<close>

definition sums_fit_int32 :: "int list \<Rightarrow> bool" where
  "sums_fit_int32 ratings =
     (length ratings < 2 ^ 31 \<and>
      list_all (\<lambda>n. - (2 ^ 31) \<le> sum_list (take n ratings) \<and> sum_list (take n ratings) < 2 ^ 31)
        [0 ..< Suc (length ratings)])"

text \<open>A token of a query: whether it starts with a minus, and the token without that minus.\<close>

definition has_minus :: "string \<Rightarrow> bool" where
  "has_minus token = (take 1 token = ''-'')"

definition strip_minus :: "string \<Rightarrow> string" where
  "strip_minus token = (if has_minus token then drop 1 token else token)"

text \<open>What the query parser rejects in a stripped term.\<close>

definition bad_term :: "string \<Rightarrow> bool" where
  "bad_term term_arg = (term_arg = [] \<or> has_minus term_arg \<or> \<not> IsValidWord term_arg)"

text \<open>The server with the single stop word \<^verbatim>\<open>in\<close> and no document.\<close>

definition server_stop_in :: SearchServer where
  "server_stop_in = SearchServer_default\<lparr>m_stop_words := {|''in''|}\<rparr>"

text \<open>The three sets that a query made of the given tokens has: the stripped terms of the
  tokens without a minus, those of the tokens with a minus, and the tokens, as written,
  whose stripped term is a stop word.\<close>

definition required_terms :: "SearchServer \<Rightarrow> string list \<Rightarrow> string fset" where
  "required_terms s tokens =
     fset_of_list (map strip_minus
       (filter (\<lambda>token. \<not> has_minus token \<and> \<not> IsStopWord s (strip_minus token)) tokens))"

definition forbidden_terms :: "SearchServer \<Rightarrow> string list \<Rightarrow> string fset" where
  "forbidden_terms s tokens =
     fset_of_list (map strip_minus
       (filter (\<lambda>token. has_minus token \<and> \<not> IsStopWord s (strip_minus token)) tokens))"

definition stop_tokens :: "SearchServer \<Rightarrow> string list \<Rightarrow> string fset" where
  "stop_tokens s tokens = fset_of_list (filter (\<lambda>token. IsStopWord s (strip_minus token)) tokens)"

text \<open>The value that \<^verbatim>\<open>operator[]\<close> of a map of doubles reads: 0.0 for a missing key.\<close>

definition value_or_zero :: "(int, real) fmap \<Rightarrow> int \<Rightarrow> real" where
  "value_or_zero m k = (case fmlookup m k of None \<Rightarrow> 0 | Some v \<Rightarrow> v)"

text \<open>The document is indexed and the predicate of the caller accepts it.\<close>

definition passes :: "SearchServer \<Rightarrow> DocumentPredicate \<Rightarrow> int \<Rightarrow> bool" where
  "passes s document_predicate document_id =
     (case fmlookup (m_documents s) document_id of
        None \<Rightarrow> False
      | Some document_data \<Rightarrow>
          document_predicate document_id (data_status document_data) (data_rating document_data))"

text \<open>The term frequency of a word in a document, as the index stores it; 0 when the
  posting of the word has no entry for the document.\<close>

definition term_freq :: "SearchServer \<Rightarrow> string \<Rightarrow> int \<Rightarrow> real" where
  "term_freq s word document_id =
     (case fmlookup (m_word_to_document_freqs s) word of
        None \<Rightarrow> 0
      | Some posting \<Rightarrow> value_or_zero posting document_id)"

text \<open>The logarithm of the number of documents over the number of documents that contain
  the word, for a word of the index.\<close>

definition inverse_document_freq :: "SearchServer \<Rightarrow> string \<Rightarrow> real" where
  "inverse_document_freq s word =
     (case fmlookup (m_word_to_document_freqs s) word of
        None \<Rightarrow> 0
      | Some posting \<Rightarrow> ln (real_of_int (GetDocumentCount s) / real (fcard (fmdom posting))))"

text \<open>The sum of term frequency times inverse document frequency over the required terms
  of the query that the index holds.\<close>

definition tf_idf_sum :: "SearchServer \<Rightarrow> Query \<Rightarrow> int \<Rightarrow> real" where
  "tf_idf_sum s query document_id =
     (\<Sum>word \<in> fset (plus_words query) \<inter> fmdom' (m_word_to_document_freqs s).
        term_freq s word document_id * inverse_document_freq s word)"

text \<open>Every document of every posting is indexed.\<close>

definition postings_indexed :: "SearchServer \<Rightarrow> bool" where
  "postings_indexed s =
     (\<forall>word document_id. in_posting s word document_id \<longrightarrow>
        document_id |\<in>| fmdom (m_documents s))"

text \<open>The entry of the result vector for a document and its relevance.\<close>

definition make_Document :: "SearchServer \<Rightarrow> int \<times> real \<Rightarrow> Document" where
  "make_Document s entry =
     \<lparr>doc_id = fst entry, relevance = snd entry,
      rating = (case fmlookup (m_documents s) (fst entry) of
                  None \<Rightarrow> 0 | Some document_data \<Rightarrow> data_rating document_data)\<rparr>"

text \<open>The documents that a query selects: accepted by the predicate, in the posting of a
  required term and in the posting of no forbidden term.\<close>

definition candidate :: "SearchServer \<Rightarrow> Query \<Rightarrow> DocumentPredicate \<Rightarrow> int \<Rightarrow> bool" where
  "candidate s query document_predicate document_id =
     (passes s document_predicate document_id \<and>
      (\<exists>word \<in> fset (plus_words query). in_posting s word document_id) \<and>
      \<not> (\<exists>word \<in> fset (minus_words query). in_posting s word document_id))"

text \<open>The posting of a word, empty for a word that the index does not hold.\<close>

definition posting_of :: "(string, (int, real) fmap) fmap \<Rightarrow> string \<Rightarrow> (int, real) fmap" where
  "posting_of freqs word = (case fmlookup freqs word of None \<Rightarrow> fmempty | Some posting \<Rightarrow> posting)"

text \<open>The words of a text that \<^verbatim>\<open>AddDocument\<close> indexes.\<close>

definition indexed_words :: "SearchServer \<Rightarrow> string \<Rightarrow> string list" where
  "indexed_words s document = filter (\<lambda>word. \<not> IsStopWord s word) (SplitIntoWords document)"

text \<open>A server without stop words that holds the document 1, \<^verbatim>\<open>cat\<close>, and the document
  2, \<^verbatim>\<open>dog\<close>, rated 1 and 7.\<close>

definition server_cat_dog :: SearchServer where
  "server_cat_dog =
     fst (AddDocument (fst (AddDocument SearchServer_default 1 ''cat'' ACTUAL [1, 2]))
            2 ''dog'' BANNED [7])"

definition accept_all :: DocumentPredicate where
  "accept_all document_id status rating_arg = True"

text \<open>The order that the comparator of \<^verbatim>\<open>FindTopDocuments\<close> asks of a result: relevances
  that differ by less than \<open>EPSILON\<close> are close; of two documents the first may precede the
  second when, their relevances being close, its rating is not smaller, and otherwise when
  its relevance is larger.\<close>

definition close_relevance :: "Document \<Rightarrow> Document \<Rightarrow> bool" where
  "close_relevance a b = (\<bar>relevance a - relevance b\<bar> < EPSILON)"

definition in_order :: "Document \<Rightarrow> Document \<Rightarrow> bool" where
  "in_order a b =
     (if close_relevance a b then rating a \<ge> rating b else relevance a > relevance b)"

text \<open>Being close is transitive on the documents of a list.\<close>

definition close_transitive :: "Document list \<Rightarrow> bool" where
  "close_transitive ds =
     (\<forall>a \<in> set ds. \<forall>b \<in> set ds. \<forall>c \<in> set ds.
        close_relevance a b \<and> close_relevance b c \<longrightarrow> close_relevance a c)"

text \<open>Words joined by single spaces, and the text of the word \<^verbatim>\<open>x\<close> followed by \<open>n\<close> times
  the word \<^verbatim>\<open>y\<close>.\<close>

fun join_words :: "string list \<Rightarrow> string" where
  "join_words [] = []"
| "join_words [word] = word"
| "join_words (word # rest) = word @ CHR '' '' # join_words rest"

definition long_document :: "nat \<Rightarrow> string" where
  "long_document n = join_words (''x'' # replicate n ''y'')"

text \<open>A server without stop words that holds three documents of 600, 601 and 602 words,
  each with the word \<^verbatim>\<open>x\<close> once, rated 1, 2 and 3, and a fourth document without \<^verbatim>\<open>x\<close>.\<close>

definition server_near_ties :: SearchServer where
  "server_near_ties =
     fst (AddDocument
       (fst (AddDocument
         (fst (AddDocument
           (fst (AddDocument SearchServer_default 1 (long_document 599) ACTUAL [1]))
           2 (long_document 600) ACTUAL [2]))
         3 (long_document 601) ACTUAL [3]))
       4 ''z'' ACTUAL [4])"

section \<open>Properties\<close>

subsection \<open>Words\<close>

lemma SplitIntoWords_loop_acc:
  "SplitIntoWords_loop str words word = words @ SplitIntoWords_loop str [] word"
proof (induction str arbitrary: words word)
  case Nil
  then show ?case by simp
next
  case (Cons c str)
  show ?case
    using Cons.IH [of "words @ [word]" "[]"] Cons.IH [of "[word]" "[]"]
      Cons.IH [of words "[]"] Cons.IH [of words "word @ [c]"]
    by auto
qed

lemma SplitIntoWords_loop_chars:
  "(\<Union>w \<in> set (SplitIntoWords_loop str words word). set w) =
     (\<Union>w \<in> set words. set w) \<union> set word \<union> (set str - {CHR '' ''})"
  by (induction str words word rule: SplitIntoWords_loop.induct) auto

lemma SplitIntoWords_chars:
  "(\<Union>w \<in> set (SplitIntoWords str). set w) = set str - {CHR '' ''}"
  by (simp add: SplitIntoWords_def SplitIntoWords_loop_chars)

lemma SplitIntoWords_loop_nonempty:
  "[] \<in> set (SplitIntoWords_loop str words word) \<longleftrightarrow> [] \<in> set words"
  by (induction str words word rule: SplitIntoWords_loop.induct) simp_all

lemma SplitIntoWords_nonempty: "w \<in> set (SplitIntoWords str) \<Longrightarrow> w \<noteq> []"
  using SplitIntoWords_loop_nonempty [of str "[]" "[]"] by (auto simp: SplitIntoWords_def)

lemma SplitIntoWords_loop_spaces:
  "set str \<subseteq> {CHR '' ''} \<Longrightarrow> SplitIntoWords_loop str words [] = words"
  by (induction str) auto

lemma SplitIntoWords_spaces: "set str \<subseteq> {CHR '' ''} \<Longrightarrow> SplitIntoWords str = []"
  by (simp add: SplitIntoWords_def SplitIntoWords_loop_spaces)

lemma SplitIntoWords_eq_Nil_iff: "SplitIntoWords str = [] \<longleftrightarrow> set str \<subseteq> {CHR '' ''}"
proof
  assume "SplitIntoWords str = []"
  then have "(\<Union>w \<in> set (SplitIntoWords str). set w) = {}" by simp
  then show "set str \<subseteq> {CHR '' ''}" unfolding SplitIntoWords_chars by auto
qed (rule SplitIntoWords_spaces)

lemma space_not_special: "\<not> is_special CHR '' ''"
  by (simp add: is_special_def)

lemma minus_not_special: "\<not> is_special CHR ''-''"
  by (simp add: is_special_def)

lemma IsValidWord_iff: "IsValidWord word \<longleftrightarrow> (\<forall>c \<in> set word. \<not> is_special c)"
  by (simp add: IsValidWord_def list_all_iff)

lemma IsValidWord_SplitIntoWords:
  "IsValidWord str \<longleftrightarrow> (\<forall>w \<in> set (SplitIntoWords str). IsValidWord w)"
proof -
  have "(\<forall>w \<in> set (SplitIntoWords str). IsValidWord w) \<longleftrightarrow>
        (\<forall>c \<in> (\<Union>w \<in> set (SplitIntoWords str). set w). \<not> is_special c)"
    by (auto simp: IsValidWord_iff)
  also have "\<dots> \<longleftrightarrow> (\<forall>c \<in> set str - {CHR '' ''}. \<not> is_special c)"
    by (simp only: SplitIntoWords_chars)
  also have "\<dots> \<longleftrightarrow> IsValidWord str"
    using space_not_special by (auto simp: IsValidWord_iff)
  finally show ?thesis by simp
qed

lemma SplitIntoWordsNoStop_loop_Inl:
  "SplitIntoWordsNoStop_loop s ws words = Inl e \<longleftrightarrow>
     e = InvalidWordToAdd \<and> (\<exists>w \<in> set ws. \<not> IsValidWord w)"
  by (induction ws arbitrary: words) auto

lemma SplitIntoWordsNoStop_loop_Inr:
  "\<forall>w \<in> set ws. IsValidWord w \<Longrightarrow>
     SplitIntoWordsNoStop_loop s ws words = Inr (words @ filter (\<lambda>w. \<not> IsStopWord s w) ws)"
  by (induction ws arbitrary: words) auto

lemma SplitIntoWordsNoStop_Inl:
  "SplitIntoWordsNoStop s str = Inl e \<longleftrightarrow> e = InvalidWordToAdd \<and> \<not> IsValidWord str"
  by (auto simp: SplitIntoWordsNoStop_def SplitIntoWordsNoStop_loop_Inl
        IsValidWord_SplitIntoWords [of str])

lemma SplitIntoWordsNoStop_Inr:
  "IsValidWord str \<Longrightarrow>
     SplitIntoWordsNoStop s str = Inr (filter (\<lambda>w. \<not> IsStopWord s w) (SplitIntoWords str))"
  using IsValidWord_SplitIntoWords [of str]
  by (simp add: SplitIntoWordsNoStop_def SplitIntoWordsNoStop_loop_Inr)

lemma AddDocument_cases:
  "AddDocument s document_id document status ratings =
     (if document_id |\<in>| fmdom (m_documents s) then (s, Some DocumentIdExists)
      else if document_id < 0 then (s, Some DocumentIdNegative)
      else if \<not> IsValidWord document then (s, Some InvalidWordToAdd)
      else (s\<lparr>m_word_to_document_freqs :=
                fold (add_freq document_id
                        (1 / real (length (filter (\<lambda>w. \<not> IsStopWord s w) (SplitIntoWords document)))))
                  (filter (\<lambda>w. \<not> IsStopWord s w) (SplitIntoWords document))
                  (m_word_to_document_freqs s),
              m_documents := fmupd document_id
                 \<lparr>data_rating = ComputeAverageRating ratings, data_status = status\<rparr>
                 (m_documents s),
              m_ids := m_ids s @ [document_id]\<rparr>, None))"
proof (cases "IsValidWord document")
  case True
  then show ?thesis
    by (simp add: AddDocument_def SplitIntoWordsNoStop_Inr Let_def)
next
  case False
  then have "SplitIntoWordsNoStop s document = Inl InvalidWordToAdd"
    by (simp add: SplitIntoWordsNoStop_Inl)
  then show ?thesis
    using False by (simp add: AddDocument_def)
qed

subsection \<open>The rating of a document\<close>

lemma int32_id: "- (2 ^ 31) \<le> x \<Longrightarrow> x < 2 ^ 31 \<Longrightarrow> int32 x = x"
  by (simp add: int32_def)

lemma fold_int32_sum:
  "(\<forall>n \<le> length xs. - (2 ^ 31) \<le> a + sum_list (take n xs) \<and> a + sum_list (take n xs) < 2 ^ 31)
   \<Longrightarrow> fold (\<lambda>rating rating_sum. int32 (rating_sum + rating)) xs a = a + sum_list xs"
proof (induction xs arbitrary: a)
  case Nil
  then show ?case by simp
next
  case (Cons x xs)
  have fit: "- (2 ^ 31) \<le> a + x \<and> a + x < 2 ^ 31"
    using Cons.prems [rule_format, of 1] by simp
  have "\<forall>n \<le> length xs. - (2 ^ 31) \<le> (a + x) + sum_list (take n xs)
          \<and> (a + x) + sum_list (take n xs) < 2 ^ 31"
  proof (intro allI impI)
    fix n assume "n \<le> length xs"
    then show "- (2 ^ 31) \<le> (a + x) + sum_list (take n xs)
          \<and> (a + x) + sum_list (take n xs) < 2 ^ 31"
      using Cons.prems [rule_format, of "Suc n"] by (simp add: add.assoc)
  qed
  from Cons.IH [OF this] fit show ?case
    by (simp add: int32_id add.assoc)
qed

lemma ComputeAverageRating_truncated_mean:
  assumes "sums_fit_int32 ratings"
  shows "ComputeAverageRating ratings = truncated_mean ratings"
proof (cases "ratings = []")
  case True
  then show ?thesis by (simp add: ComputeAverageRating_def truncated_mean_def)
next
  case False
  have len: "int32 (int (length ratings)) = int (length ratings)"
    using assms by (intro int32_id) (simp_all add: sums_fit_int32_def)
  have "\<forall>n \<le> length ratings. - (2 ^ 31) \<le> 0 + sum_list (take n ratings)
          \<and> 0 + sum_list (take n ratings) < 2 ^ 31"
    using assms by (auto simp: sums_fit_int32_def list_all_iff)
  from fold_int32_sum [OF this]
  have sum: "fold (\<lambda>rating rating_sum. int32 (rating_sum + rating)) ratings 0 = sum_list ratings"
    by simp
  have pos: "sgn (int (length ratings)) = 1"
    using False by simp
  show ?thesis
    using False
    by (simp add: ComputeAverageRating_def truncated_mean_def len sum signed_divide_int_def pos
        Let_def)
qed

lemma AddDocument_stored_data:
  "snd (AddDocument s document_id document status ratings) = None \<Longrightarrow>
     fmlookup (m_documents (fst (AddDocument s document_id document status ratings))) document_id
       = Some \<lparr>data_rating = ComputeAverageRating ratings, data_status = status\<rparr>"
  by (simp add: AddDocument_cases split: if_splits)

text \<open>
  Claim C7, as stated, at the ratings 2147483647 and 1: the sum does not fit the \<^verbatim>\<open>int\<close>
  that accumulates it, and the rating computed is \<open>- 1073741824\<close>, where the truncated
  mean is \<open>1073741824\<close>.
\<close>

theorem rating_sum_overflow_counterexample:
  "ComputeAverageRating [2147483647, 1] \<noteq> truncated_mean [2147483647, 1]"
  by (simp add: ComputeAverageRating_def truncated_mean_def int32_def signed_divide_int_def)

text \<open>
  Claim C7, amended: for every sequence of ratings whose running sums (and whose length)
  fit a 32-bit \<^verbatim>\<open>int\<close>, the rating computed, which a successful \<^verbatim>\<open>AddDocument\<close> stores
  for the document, is the sum of the ratings divided by their number, truncated towards
  zero; it is 0 for no ratings, 6 for 12, 1, 5, it is 2 for -2, 5, 3 and 1 for 1.
\<close>

theorem rating_truncated_mean:
  "(sums_fit_int32 ratings \<longrightarrow>
      ComputeAverageRating ratings = truncated_mean ratings \<and>
      (snd (AddDocument s document_id document status ratings) = None \<longrightarrow>
         map_option data_rating
           (fmlookup (m_documents (fst (AddDocument s document_id document status ratings)))
              document_id) = Some (truncated_mean ratings))) \<and>
   ComputeAverageRating [] = 0 \<and>
   ComputeAverageRating [12, 1, 5] = 6 \<and>
   ComputeAverageRating [-2, 5, 3] = 2 \<and>
   ComputeAverageRating [1] = 1"
proof -
  have "ComputeAverageRating [] = 0"
    by (simp add: ComputeAverageRating_def)
  moreover have "ComputeAverageRating [12, 1, 5] = 6"
    by (simp add: ComputeAverageRating_def int32_def signed_divide_int_def)
  moreover have "ComputeAverageRating [-2, 5, 3] = 2"
    by (simp add: ComputeAverageRating_def int32_def signed_divide_int_def)
  moreover have "ComputeAverageRating [1] = 1"
    by (simp add: ComputeAverageRating_def int32_def signed_divide_int_def)
  ultimately show ?thesis
    by (simp add: ComputeAverageRating_truncated_mean AddDocument_stored_data)
qed

text \<open>The amended claim at the ratings -2 and -1, whose mean -1.5 truncates to -1.\<close>

theorem rating_truncated_mean_witness:
  "sums_fit_int32 [-2, -1] \<and> ComputeAverageRating [-2, -1] = - 1 \<and>
   snd (AddDocument SearchServer_default 4 ''cat'' ACTUAL [-2, -1]) = None \<and>
   map_option data_rating
     (fmlookup (m_documents (fst (AddDocument SearchServer_default 4 ''cat'' ACTUAL [-2, -1]))) 4)
     = Some (- 1)"
proof -
  have fit: "sums_fit_int32 [-2, -1]"
    by (simp add: sums_fit_int32_def upt_rec)
  have ok: "snd (AddDocument SearchServer_default 4 ''cat'' ACTUAL [-2, -1]) = None"
    by (simp add: AddDocument_cases SearchServer_default_def IsValidWord_def is_special_def)
  have mean: "truncated_mean [-2, -1] = - 1"
    by (simp add: truncated_mean_def)
  show ?thesis
    using rating_truncated_mean [of "[-2, -1]" SearchServer_default 4 "''cat''" ACTUAL] fit ok mean
    by simp
qed

subsection \<open>Parsing a query\<close>

lemma ParseQueryWord_eq:
  "ParseQueryWord s token =
     (if bad_term (strip_minus token) then Inl InvalidWordToRequest
      else Inr \<lparr>data = strip_minus token, is_minus = has_minus token,
                is_stop = IsStopWord s (strip_minus token)\<rparr>)"
proof (cases token)
  case Nil
  then show ?thesis
    by (simp add: ParseQueryWord_def bad_term_def strip_minus_def has_minus_def)
next
  case (Cons c cs)
  then show ?thesis
    by (cases cs)
      (auto simp: ParseQueryWord_def bad_term_def strip_minus_def has_minus_def Let_def)
qed

lemma ParseQuery_loop_eq:
  "ParseQuery_loop s tokens query =
     (if \<exists>token \<in> set tokens. bad_term (strip_minus token) then Inl InvalidWordToRequest
      else Inr \<lparr>plus_words = plus_words query |\<union>| required_terms s tokens,
                minus_words = minus_words query |\<union>| forbidden_terms s tokens,
                stop_words = stop_words query |\<union>| stop_tokens s tokens\<rparr>)"
proof (induction tokens arbitrary: query)
  case Nil
  then show ?case
    by (simp add: required_terms_def forbidden_terms_def stop_tokens_def)
next
  case (Cons token tokens)
  show ?case
  proof (cases "bad_term (strip_minus token)")
    case True
    then show ?thesis by (simp add: ParseQueryWord_eq)
  next
    case False
    then have ne: "strip_minus token \<noteq> []" by (simp add: bad_term_def)
    show ?thesis
      using False ne
      by (simp add: ParseQueryWord_eq Cons.IH required_terms_def forbidden_terms_def
          stop_tokens_def)
  qed
qed

lemma ParseQuery_eq:
  "ParseQuery s str =
     (if \<exists>token \<in> set (SplitIntoWords str). bad_term (strip_minus token)
      then Inl InvalidWordToRequest
      else Inr \<lparr>plus_words = required_terms s (SplitIntoWords str),
                minus_words = forbidden_terms s (SplitIntoWords str),
                stop_words = stop_tokens s (SplitIntoWords str)\<rparr>)"
  by (simp add: ParseQuery_def ParseQuery_loop_eq empty_Query_def)

subsection \<open>Degenerate and blank queries, failing insertions\<close>

lemma IsValidWord_strip_minus: "IsValidWord (strip_minus token) \<longleftrightarrow> IsValidWord token"
  by (cases token) (auto simp: strip_minus_def has_minus_def IsValidWord_def minus_not_special)

lemma filter_False_all: "\<forall>x \<in> set xs. \<not> P x \<Longrightarrow> filter P xs = []"
  by (induction xs) auto

lemma stop_only_query:
  assumes "\<forall>token \<in> set tokens. \<not> bad_term (strip_minus token) \<and> IsStopWord s (strip_minus token)"
  shows "required_terms s tokens = {||}" and "forbidden_terms s tokens = {||}"
    and "stop_tokens s tokens = fset_of_list tokens"
proof -
  have "filter (\<lambda>token. \<not> has_minus token \<and> \<not> IsStopWord s (strip_minus token)) tokens = []"
    using assms by (intro filter_False_all) simp
  then show "required_terms s tokens = {||}" by (simp add: required_terms_def)
  have "filter (\<lambda>token. has_minus token \<and> \<not> IsStopWord s (strip_minus token)) tokens = []"
    using assms by (intro filter_False_all) simp
  then show "forbidden_terms s tokens = {||}" by (simp add: forbidden_terms_def)
  have "filter (\<lambda>token. IsStopWord s (strip_minus token)) tokens = tokens"
    using assms by (simp add: filter_id_conv)
  then show "stop_tokens s tokens = fset_of_list tokens" by (simp add: stop_tokens_def)
qed

lemma fset_of_list_eq_empty_iff: "fset_of_list xs = {||} \<longleftrightarrow> xs = []"
  by (cases xs) auto

lemma sorted_list_of_fset_empty: "sorted_list_of_fset {||} = []"
  by (simp add: sorted_list_of_fset.rep_eq)


text \<open>
  Claim C4: for every server, a query with at least one token, all of whose tokens resolve
  to stop words, makes \<^verbatim>\<open>FindTopDocuments\<close> return the empty vector and makes
  \<^verbatim>\<open>MatchDocument\<close> return no matched word and the status \<^verbatim>\<open>ACTUAL\<close>; both return
  normally. (\<^verbatim>\<open>MatchDocument\<close> is called with the id of an indexed document: the check of the
  id comes before the query is parsed.)
\<close>

theorem stop_only_query_short_circuit:
  assumes "SplitIntoWords raw_query \<noteq> []"
    and "\<forall>token \<in> set (SplitIntoWords raw_query).
           \<exists>query_word. ParseQueryWord s token = Inr query_word \<and> is_stop query_word"
  shows "FindTopDocuments s raw_query document_predicate = Inr [] \<and>
         (document_id |\<in>| fmdom (m_documents s) \<longrightarrow>
            MatchDocument s raw_query document_id = Inr ([], ACTUAL))"
proof -
  have tokens: "\<forall>token \<in> set (SplitIntoWords raw_query).
      \<not> bad_term (strip_minus token) \<and> IsStopWord s (strip_minus token)"
  proof
    fix token assume "token \<in> set (SplitIntoWords raw_query)"
    with assms(2) obtain query_word
      where "ParseQueryWord s token = Inr query_word" and "is_stop query_word" by blast
    then show "\<not> bad_term (strip_minus token) \<and> IsStopWord s (strip_minus token)"
      by (auto simp: ParseQueryWord_eq split: if_splits)
  qed
  then have "\<forall>token \<in> set (SplitIntoWords raw_query). IsValidWord token"
    by (auto simp: bad_term_def IsValidWord_strip_minus)
  then have valid: "IsValidWord raw_query"
    by (simp add: IsValidWord_SplitIntoWords [of raw_query])
  have nonempty: "raw_query \<noteq> []"
    using assms(1) by (auto simp: SplitIntoWords_def)
  have parse: "ParseQuery s raw_query =
      Inr \<lparr>plus_words = {||}, minus_words = {||},
           stop_words = fset_of_list (SplitIntoWords raw_query)\<rparr>"
    using tokens by (simp add: ParseQuery_eq stop_only_query [OF tokens])
  have degenerate: "is_degenerate \<lparr>plus_words = {||}, minus_words = {||},
           stop_words = fset_of_list (SplitIntoWords raw_query)\<rparr>"
    using assms(1) by (simp add: is_degenerate_def fset_of_list_eq_empty_iff)
  show ?thesis
    using valid nonempty parse degenerate
    by (simp add: FindTopDocuments_def MatchDocument_def)
qed

text \<open>Claim C4 at the query \<^verbatim>\<open>in -in\<close>, for the stop word \<^verbatim>\<open>in\<close> and a banned
  document 7.\<close>

theorem stop_only_query_short_circuit_witness:
  "SplitIntoWords ''in -in'' \<noteq> [] \<and>
   SplitIntoWords ''in -in'' = [''in'', ''-in''] \<and>
   ParseQueryWord server_stop_in ''in'' = Inr \<lparr>data = ''in'', is_minus = False, is_stop = True\<rparr> \<and>
   ParseQueryWord server_stop_in ''-in'' = Inr \<lparr>data = ''in'', is_minus = True, is_stop = True\<rparr> \<and>
   FindTopDocuments server_stop_in ''in -in'' (\<lambda>document_id status rating. True) = Inr [] \<and>
   7 |\<in>| fmdom (m_documents (fst (AddDocument server_stop_in 7 ''cat'' BANNED [3]))) \<and>
   MatchDocument (fst (AddDocument server_stop_in 7 ''cat'' BANNED [3])) ''in -in'' 7
     = Inr ([], ACTUAL)"
proof -
  let ?s = "fst (AddDocument server_stop_in 7 ''cat'' BANNED [3])"
  have split: "SplitIntoWords ''in -in'' = [''in'', ''-in'']"
    by (simp add: SplitIntoWords_def)
  have stop: "m_stop_words ?s = {|''in''|}" "m_stop_words server_stop_in = {|''in''|}"
    by (simp_all add: AddDocument_cases server_stop_in_def)
  have words: "\<forall>token \<in> set (SplitIntoWords ''in -in'').
      \<exists>query_word. ParseQueryWord s' token = Inr query_word \<and> is_stop query_word"
    if "m_stop_words s' = {|''in''|}" for s'
    using that
    by (simp add: split ParseQueryWord_def IsStopWord_def IsValidWord_def is_special_def)
  have indexed: "7 |\<in>| fmdom (m_documents ?s)"
    by (simp add: AddDocument_cases server_stop_in_def SearchServer_default_def
        IsValidWord_def is_special_def)
  show ?thesis
    using stop_only_query_short_circuit [of "''in -in''" server_stop_in "\<lambda>document_id status rating. True" 7]
      stop_only_query_short_circuit [of "''in -in''" ?s "\<lambda>document_id status rating. True" 7]
      words [OF stop(1)] words [OF stop(2)] indexed
    by (simp add: split ParseQueryWord_def IsStopWord_def IsValidWord_def is_special_def stop(2))
qed

text \<open>
  Claim C10: \<^verbatim>\<open>MatchDocument\<close>, called with a query that is empty or made of spaces only
  and with the id of an indexed document, returns no matched word and the stored status
  of that document; \<^verbatim>\<open>FindTopDocuments\<close> rejects the empty query.
\<close>

theorem MatchDocument_blank_query:
  assumes "set raw_query \<subseteq> {CHR '' ''}"
    and "fmlookup (m_documents s) document_id = Some document_data"
  shows "MatchDocument s raw_query document_id = Inr ([], data_status document_data) \<and>
         FindTopDocuments s '''' document_predicate = Inl RawQueryEmpty"
proof -
  have "SplitIntoWords raw_query = []"
    using assms(1) by (rule SplitIntoWords_spaces)
  then have parse: "ParseQuery s raw_query = Inr empty_Query"
    by (simp add: ParseQuery_def)
  have indexed: "document_id |\<in>| fmdom (m_documents s)"
    using assms(2) by (rule fmdomI)
  show ?thesis
    using assms(2) indexed
    by (simp add: MatchDocument_def parse empty_Query_def is_degenerate_def
        sorted_list_of_fset_empty FindTopDocuments_def IsValidWord_def)
qed

text \<open>Claim C10 at a query of two spaces and a banned document 42.\<close>

theorem MatchDocument_blank_query_witness:
  "set ''  '' \<subseteq> {CHR '' ''} \<and>
   fmlookup (m_documents (fst (AddDocument SearchServer_default 42 ''cat in the city'' BANNED [1, 2, 3]))) 42
     = Some \<lparr>data_rating = 2, data_status = BANNED\<rparr> \<and>
   MatchDocument (fst (AddDocument SearchServer_default 42 ''cat in the city'' BANNED [1, 2, 3])) ''  '' 42
     = Inr ([], BANNED)"
proof -
  let ?s = "fst (AddDocument SearchServer_default 42 ''cat in the city'' BANNED [1, 2, 3])"
  have stored: "fmlookup (m_documents ?s) 42 = Some \<lparr>data_rating = 2, data_status = BANNED\<rparr>"
    by (simp add: AddDocument_cases SearchServer_default_def IsValidWord_def is_special_def
        ComputeAverageRating_def int32_def signed_divide_int_def)
  have blank: "set ''  '' \<subseteq> {CHR '' ''}" by simp
  show ?thesis
    using MatchDocument_blank_query [OF blank stored] stored by simp
qed

text \<open>
  Claim C5: \<^verbatim>\<open>AddDocument\<close> throws exactly when the id is already indexed, the id is
  negative or a word of the text is invalid, and then the server after the call is the
  server before it.
\<close>

theorem AddDocument_failure_unchanged:
  "(snd (AddDocument s document_id document status ratings) \<noteq> None \<longleftrightarrow>
      document_id |\<in>| fmdom (m_documents s) \<or> document_id < 0 \<or>
      (\<exists>word \<in> set (SplitIntoWords document). \<not> IsValidWord word)) \<and>
   (snd (AddDocument s document_id document status ratings) \<noteq> None \<longrightarrow>
      fst (AddDocument s document_id document status ratings) = s)"
  by (simp add: AddDocument_cases IsValidWord_SplitIntoWords [of document])

text \<open>Claim C5 at a text whose first word is valid and whose second word is the byte 2.\<close>

theorem AddDocument_failure_unchanged_witness:
  "snd (AddDocument server_stop_in 3 [CHR ''a'', CHR '' '', CHR 0x02] ACTUAL [1]) \<noteq> None \<and>
   fst (AddDocument server_stop_in 3 [CHR ''a'', CHR '' '', CHR 0x02] ACTUAL [1]) = server_stop_in"
proof -
  have "\<not> IsValidWord [CHR 0x02]"
    by (simp add: IsValidWord_def is_special_def)
  moreover have "SplitIntoWords [CHR ''a'', CHR '' '', CHR 0x02] = ''a'' # [CHR 0x02] # []"
    by (simp add: SplitIntoWords_def)
  ultimately show ?thesis
    using AddDocument_failure_unchanged [of server_stop_in 3 "[CHR ''a'', CHR '' '', CHR 0x02]" ACTUAL "[1]"]
    by simp
qed

subsection \<open>The sets of a parsed query\<close>

text \<open>
  Claim C8, as stated, at two queries. In \<^verbatim>\<open>cat -cat\<close> the stripped term \<^verbatim>\<open>cat\<close> of both
  tokens is in the required set and in the forbidden set of the query. In \<^verbatim>\<open>-in\<close>, with
  the stop word \<^verbatim>\<open>in\<close>, the stripped term \<^verbatim>\<open>in\<close> is in no set of the query: the stop-word
  set holds the token as written, \<^verbatim>\<open>-in\<close>.
\<close>

theorem query_sets_overlap_counterexample:
  "ParseQuery SearchServer_default ''cat -cat'' =
     Inr \<lparr>plus_words = {|''cat''|}, minus_words = {|''cat''|}, stop_words = {||}\<rparr> \<and>
   ParseQuery server_stop_in ''-in'' =
     Inr \<lparr>plus_words = {||}, minus_words = {||}, stop_words = {|''-in''|}\<rparr>"
  by (simp add: ParseQuery_def SplitIntoWords_def ParseQueryWord_def IsStopWord_def
      IsValidWord_def is_special_def SearchServer_default_def server_stop_in_def empty_Query_def)

text \<open>
  Claim C8, amended: query parsing strips at most one leading minus from each token and
  fails, with the exception of an invalid query word, exactly when for some token the
  remaining text is empty, starts with a minus or contains a byte from 0 to 31. Otherwise
  each token is recorded once, by its class: the stripped term in the required set when the
  token has no minus and the term is no stop word, the stripped term in the forbidden set
  when the token has a minus and the term is no stop word, the token as written in the
  stop-word set when the term is a stop word; the three sets hold nothing else.
\<close>

theorem ParseQuery_classification:
  "ParseQuery s raw_query =
     (if \<exists>token \<in> set (SplitIntoWords raw_query).
           strip_minus token = [] \<or> take 1 (strip_minus token) = ''-'' \<or>
           (\<exists>c \<in> set (strip_minus token). (of_char c :: nat) < 32)
      then Inl InvalidWordToRequest
      else Inr \<lparr>plus_words = required_terms s (SplitIntoWords raw_query),
                minus_words = forbidden_terms s (SplitIntoWords raw_query),
                stop_words = stop_tokens s (SplitIntoWords raw_query)\<rparr>)"
  by (simp add: ParseQuery_eq bad_term_def has_minus_def IsValidWord_iff is_special_def)

text \<open>The amended claim at one query of each class and at one query for each way to fail.\<close>

theorem ParseQuery_classification_witness:
  "ParseQuery server_stop_in ''cat -dog -in'' =
     Inr \<lparr>plus_words = {|''cat''|}, minus_words = {|''dog''|}, stop_words = {|''-in''|}\<rparr> \<and>
   ParseQuery server_stop_in ''cat --dog'' = Inl InvalidWordToRequest \<and>
   ParseQuery server_stop_in ''cat -'' = Inl InvalidWordToRequest \<and>
   ParseQuery server_stop_in [CHR ''c'', CHR 0x1F] = Inl InvalidWordToRequest"
proof -
  have split: "SplitIntoWords ''cat -dog -in'' = [''cat'', ''-dog'', ''-in'']"
    "SplitIntoWords ''cat --dog'' = [''cat'', ''--dog'']"
    "SplitIntoWords ''cat -'' = [''cat'', ''-'']"
    "SplitIntoWords [CHR ''c'', CHR 0x1F] = [CHR ''c'', CHR 0x1F] # []"
    by (simp_all add: SplitIntoWords_def)
  show ?thesis
    using ParseQuery_classification [of server_stop_in "''cat -dog -in''"] ParseQuery_classification [of server_stop_in "''cat --dog''"]
      ParseQuery_classification [of server_stop_in "''cat -''"] ParseQuery_classification [of server_stop_in "[CHR ''c'', CHR 0x1F]"]
    by (simp add: split strip_minus_def has_minus_def required_terms_def forbidden_terms_def
        stop_tokens_def IsStopWord_def server_stop_in_def)
qed

subsection \<open>The loops of \<^verbatim>\<open>FindAllDocuments\<close>\<close>

lemma sum_list_single_key:
  "distinct (map fst items) \<Longrightarrow>
     (\<Sum>(k, v)\<leftarrow>items. if k = key then f v else (0::real)) =
       (case map_of items key of None \<Rightarrow> 0 | Some v \<Rightarrow> f v)"
proof (induction items)
  case Nil
  then show ?case by simp
next
  case (Cons a items)
  obtain k v where a: "a = (k, v)" by (cases a)
  show ?case
  proof (cases "k = key")
    case True
    then have "key \<notin> fst ` set items" using Cons.prems a by auto
    then have "(\<Sum>(k, v)\<leftarrow>items. if k = key then f v else (0::real)) = 0"
      by (induction items) auto
    then show ?thesis using True a by simp
  next
    case False
    then show ?thesis using Cons a by simp
  qed
qed

lemma map_fst_sorted_list_of_fmap:
  "map fst (sorted_list_of_fmap m) = sorted_list_of_fset (fmdom m)"
  by (simp add: sorted_list_of_fmap_def comp_def)

lemma distinct_sorted_list_of_fset: "distinct (sorted_list_of_fset A)"
  by (simp add: sorted_list_of_fset.rep_eq)

lemma distinct_sorted_list_of_fmap: "distinct (map fst (sorted_list_of_fmap m))"
  by (simp add: map_fst_sorted_list_of_fmap distinct_sorted_list_of_fset)

lemma fst_set_sorted_list_of_fmap: "fst ` set (sorted_list_of_fmap m) = fmdom' m"
proof -
  have "fst ` set (sorted_list_of_fmap m) = set (map fst (sorted_list_of_fmap m))" by simp
  also have "\<dots> = fmdom' m"
    by (simp only: map_fst_sorted_list_of_fmap sorted_list_of_fset_simps fmdom'_alt_def)
  finally show ?thesis .
qed

lemma set_sorted_list_of_fmap:
  "(k, v) \<in> set (sorted_list_of_fmap m) \<longleftrightarrow> fmlookup m k = Some v"
  using distinct_sorted_list_of_fmap [of m] map_of_sorted_list [of m]
  by (metis map_of_eq_Some_iff)

lemma value_or_zero_upd:
  "value_or_zero (add_relevance k x m) k' = (if k' = k then value_or_zero m k + x else value_or_zero m k')"
  by (simp add: value_or_zero_def add_relevance_def)

lemma fmdom_add_relevance: "fmdom (add_relevance k x m) = finsert k (fmdom m)"
  by (simp add: add_relevance_def)

lemma plus_posting_loop_lookup:
  "plus_posting_loop s document_predicate idf items d2r = Inr d2r' \<Longrightarrow>
     fmlookup d2r' k =
       (if k |\<in>| fmdom d2r \<or> (k \<in> fst ` set items \<and> passes s document_predicate k)
        then Some (value_or_zero d2r k +
               (\<Sum>(k', tf)\<leftarrow>items. if k' = k then
                    (if passes s document_predicate k then tf * idf else 0) else 0))
        else None)"
proof (induction items arbitrary: d2r)
  case Nil
  then show ?case by (auto simp: value_or_zero_def fmlookup_dom_iff)
next
  case (Cons a items)
  obtain k' tf where a: "a = (k', tf)" by (cases a)
  from Cons.prems a obtain document_data
    where doc: "fmlookup (m_documents s) k' = Some document_data"
    by (auto split: option.splits)
  show ?case
  proof (cases "document_predicate k' (data_status document_data) (data_rating document_data)")
    case True
    then have pass: "passes s document_predicate k'" by (simp add: passes_def doc)
    from Cons.prems a doc True
    have "plus_posting_loop s document_predicate idf items (add_relevance k' (tf * idf) d2r) = Inr d2r'"
      by simp
    from Cons.IH [OF this] show ?thesis
      using a pass
      by (auto simp: value_or_zero_upd fmdom_add_relevance)
  next
    case False
    then have pass: "\<not> passes s document_predicate k'" by (simp add: passes_def doc)
    from Cons.prems a doc False
    have "plus_posting_loop s document_predicate idf items d2r = Inr d2r'"
      by simp
    from Cons.IH [OF this] show ?thesis
      using a pass by auto
  qed
qed


lemma value_or_zero_notin: "k |\<notin>| fmdom m \<Longrightarrow> value_or_zero m k = 0"
  by (simp add: value_or_zero_def fmdom_notD)

lemma lookup_value_or_zero:
  "fmlookup m k = (if k |\<in>| fmdom m then Some (value_or_zero m k) else None)"
  by (auto simp: value_or_zero_def fmlookup_dom_iff)

lemma plus_posting_loop_posting:
  assumes "plus_posting_loop s document_predicate idf (sorted_list_of_fmap posting) d2r = Inr d2r'"
  shows "fmlookup d2r' k =
       (if k |\<in>| fmdom d2r \<or> (k |\<in>| fmdom posting \<and> passes s document_predicate k)
        then Some (value_or_zero d2r k +
               (if passes s document_predicate k then value_or_zero posting k * idf else 0))
        else None)"
proof -
  have sum: "(\<Sum>(k', tf)\<leftarrow>sorted_list_of_fmap posting. if k' = k then
                 (if passes s document_predicate k then tf * idf else 0) else 0) =
             (if passes s document_predicate k then value_or_zero posting k * idf else 0)"
    using sum_list_single_key [where items = "sorted_list_of_fmap posting" and key = k
        and f = "\<lambda>tf. if passes s document_predicate k then tf * idf else 0",
        OF distinct_sorted_list_of_fmap]
    by (simp add: value_or_zero_def split: option.splits)
  have dom: "k \<in> fst ` set (sorted_list_of_fmap posting) \<longleftrightarrow> k |\<in>| fmdom posting"
    by (simp only: fst_set_sorted_list_of_fmap fmdom'_alt_def)
  show ?thesis
    unfolding plus_posting_loop_lookup [OF assms, of k] sum dom ..
qed

lemma plus_posting_loop_dom:
  assumes "plus_posting_loop s document_predicate idf (sorted_list_of_fmap posting) d2r = Inr d2r'"
  shows "k |\<in>| fmdom d2r' \<longleftrightarrow>
           k |\<in>| fmdom d2r \<or> (k |\<in>| fmdom posting \<and> passes s document_predicate k)"
  using plus_posting_loop_posting [OF assms, of k]
  by (simp add: fmlookup_dom_iff split: if_splits)

lemma plus_posting_loop_value:
  assumes "plus_posting_loop s document_predicate idf (sorted_list_of_fmap posting) d2r = Inr d2r'"
  shows "value_or_zero d2r' k = value_or_zero d2r k +
           (if passes s document_predicate k then value_or_zero posting k * idf else 0)"
proof (cases "k |\<in>| fmdom d2r \<or> (k |\<in>| fmdom posting \<and> passes s document_predicate k)")
  case True
  then show ?thesis
    using plus_posting_loop_posting [OF assms, of k] by (simp add: value_or_zero_def)
next
  case False
  then have "fmlookup d2r' k = None" "k |\<notin>| fmdom d2r"
    "passes s document_predicate k \<longrightarrow> k |\<notin>| fmdom posting"
    using plus_posting_loop_posting [OF assms, of k] by auto
  then show ?thesis
    by (auto simp: value_or_zero_def fmdom_notD)
qed

lemma ComputeWordInverseDocumentFreq_eq:
  "fmlookup (m_word_to_document_freqs s) word = Some posting \<Longrightarrow>
     ComputeWordInverseDocumentFreq s word = Inr (inverse_document_freq s word)"
  by (simp add: ComputeWordInverseDocumentFreq_def inverse_document_freq_def)

lemma plus_words_loop_dom:
  "plus_words_loop s document_predicate words d2r = Inr d2r' \<Longrightarrow>
     k |\<in>| fmdom d2r' \<longleftrightarrow>
       k |\<in>| fmdom d2r \<or> (passes s document_predicate k \<and> (\<exists>w \<in> set words. in_posting s w k))"
proof (induction words arbitrary: d2r)
  case Nil
  then show ?case by simp
next
  case (Cons word words)
  show ?case
  proof (cases "fmlookup (m_word_to_document_freqs s) word")
    case None
    with Cons.prems have "plus_words_loop s document_predicate words d2r = Inr d2r'" by simp
    from Cons.IH [OF this] show ?thesis
      using None by (simp add: in_posting_def)
  next
    case (Some posting)
    with Cons.prems obtain d2r1
      where inner: "plus_posting_loop s document_predicate (inverse_document_freq s word)
                      (sorted_list_of_fmap posting) d2r = Inr d2r1"
        and rest: "plus_words_loop s document_predicate words d2r1 = Inr d2r'"
      by (auto simp: ComputeWordInverseDocumentFreq_eq split: sum.splits)
    show ?thesis
      unfolding Cons.IH [OF rest] plus_posting_loop_dom [OF inner]
      using Some by (auto simp: in_posting_def)
  qed
qed

lemma plus_words_loop_value:
  "plus_words_loop s document_predicate words d2r = Inr d2r' \<Longrightarrow>
     value_or_zero d2r' k = value_or_zero d2r k +
       (if passes s document_predicate k
        then (\<Sum>w\<leftarrow>words. term_freq s w k * inverse_document_freq s w) else 0)"
proof (induction words arbitrary: d2r)
  case Nil
  then show ?case by simp
next
  case (Cons word words)
  show ?case
  proof (cases "fmlookup (m_word_to_document_freqs s) word")
    case None
    with Cons.prems have "plus_words_loop s document_predicate words d2r = Inr d2r'" by simp
    from Cons.IH [OF this] show ?thesis
      using None by (simp add: term_freq_def)
  next
    case (Some posting)
    with Cons.prems obtain d2r1
      where inner: "plus_posting_loop s document_predicate (inverse_document_freq s word)
                      (sorted_list_of_fmap posting) d2r = Inr d2r1"
        and rest: "plus_words_loop s document_predicate words d2r1 = Inr d2r'"
      by (auto simp: ComputeWordInverseDocumentFreq_eq split: sum.splits)
    show ?thesis
      unfolding Cons.IH [OF rest] plus_posting_loop_value [OF inner]
      using Some by (simp add: term_freq_def)
  qed
qed

lemma fold_fmdrop_lookup:
  "fmlookup (fold (\<lambda>(document_id, _). fmdrop document_id) items d2r) k =
     (if k \<in> fst ` set items then None else fmlookup d2r k)"
  by (induction items arbitrary: d2r) (auto split: prod.splits)

lemma minus_words_loop_lookup:
  "fmlookup (minus_words_loop s words d2r) k =
     (if \<exists>w \<in> set words. in_posting s w k then None else fmlookup d2r k)"
proof (induction words arbitrary: d2r)
  case Nil
  then show ?case by simp
next
  case (Cons word words)
  show ?case
  proof (cases "fmlookup (m_word_to_document_freqs s) word")
    case None
    then show ?thesis by (simp add: Cons.IH in_posting_def)
  next
    case (Some posting)
    have "k \<in> fst ` set (sorted_list_of_fmap posting) \<longleftrightarrow> k |\<in>| fmdom posting"
      by (simp only: fst_set_sorted_list_of_fmap fmdom'_alt_def)
    then show ?thesis
      using Some by (simp add: Cons.IH in_posting_def fold_fmdrop_lookup)
  qed
qed

lemma result_loop_eq:
  "result_loop s items result =
     (if \<forall>k \<in> fst ` set items. k |\<in>| fmdom (m_documents s)
      then Inr (result @ map (make_Document s) items) else Inl AtOutOfRange)"
proof (induction items arbitrary: result)
  case Nil
  then show ?case by simp
next
  case (Cons a items)
  obtain k rel where a: "a = (k, rel)" by (cases a)
  show ?case
  proof (cases "fmlookup (m_documents s) k")
    case None
    then show ?thesis using a by (auto simp: fmlookup_dom_iff)
  next
    case (Some document_data)
    then have "k |\<in>| fmdom (m_documents s)" by (rule fmdomI)
    then show ?thesis
      using a Some by (simp add: Cons.IH make_Document_def)
  qed
qed


lemma sorted_list_of_fmap_eq:
  assumes "\<And>k. fmlookup m k = (if P k then Some (f k) else None)"
  shows "sorted_list_of_fmap m = map (\<lambda>k. (k, f k)) (sorted_list_of_set {k. P k})"
proof -
  have dom: "fset (fmdom m) = {k. P k}"
    using assms by (auto simp: fmlookup_dom_iff split: if_splits)
  have "sorted_list_of_fmap m = map (\<lambda>k. (k, the (fmlookup m k))) (sorted_list_of_set {k. P k})"
    by (simp add: sorted_list_of_fmap_def sorted_list_of_fset.rep_eq dom)
  also have "\<dots> = map (\<lambda>k. (k, f k)) (sorted_list_of_set {k. P k})"
  proof (rule map_cong [OF refl])
    fix k assume "k \<in> set (sorted_list_of_set {k. P k})"
    moreover have "finite {k. P k}" using dom [symmetric] by simp
    ultimately have "P k" by simp
    then show "(k, the (fmlookup m k)) = (k, f k)" by (simp add: assms)
  qed
  finally show ?thesis .
qed

lemma sum_list_plus_words:
  "(\<Sum>w\<leftarrow>sorted_list_of_fset (plus_words query). term_freq s w k * inverse_document_freq s w)
     = tf_idf_sum s query k"
proof -
  have "(\<Sum>w\<leftarrow>sorted_list_of_fset (plus_words query). term_freq s w k * inverse_document_freq s w)
      = (\<Sum>w \<in> fset (plus_words query). term_freq s w k * inverse_document_freq s w)"
    using sum_list_distinct_conv_sum_set [OF distinct_sorted_list_of_fset, of _ "plus_words query"]
    by simp
  also have "\<dots> = tf_idf_sum s query k"
    unfolding tf_idf_sum_def
    by (rule sum.mono_neutral_right) (auto simp: term_freq_def fmdom'_notD)
  finally show ?thesis .
qed

lemma passes_indexed: "passes s document_predicate k \<Longrightarrow> k |\<in>| fmdom (m_documents s)"
  by (auto simp: passes_def fmlookup_dom_iff split: option.splits)

lemma finite_candidates: "finite {k. candidate s query document_predicate k}"
proof (rule finite_subset)
  show "{k. candidate s query document_predicate k} \<subseteq> fmdom' (m_documents s)"
    by (auto simp: candidate_def fmdom'_alt_def dest: passes_indexed)
qed simp

lemma FindAllDocuments_Inr:
  assumes "FindAllDocuments s query document_predicate = Inr result"
  shows "result = map (\<lambda>k. make_Document s (k, tf_idf_sum s query k))
                    (sorted_list_of_set {k. candidate s query document_predicate k})"
proof -
  from assms obtain d2r
    where plus: "plus_words_loop s document_predicate (sorted_list_of_fset (plus_words query))
                   fmempty = Inr d2r"
      and res: "result_loop s (sorted_list_of_fmap (minus_words_loop s
                   (sorted_list_of_fset (minus_words query)) d2r)) [] = Inr result"
    by (auto simp: FindAllDocuments_def split: sum.splits)
  let ?D = "minus_words_loop s (sorted_list_of_fset (minus_words query)) d2r"
  have lookup: "fmlookup ?D k =
      (if candidate s query document_predicate k then Some (tf_idf_sum s query k) else None)" for k
  proof -
    have dom: "k |\<in>| fmdom d2r \<longleftrightarrow>
        passes s document_predicate k \<and> (\<exists>w \<in> fset (plus_words query). in_posting s w k)"
      using plus_words_loop_dom [OF plus, of k] by simp
    have val: "passes s document_predicate k \<Longrightarrow> value_or_zero d2r k = tf_idf_sum s query k"
      using plus_words_loop_value [OF plus, of k]
      by (simp add: sum_list_plus_words value_or_zero_def)
    show ?thesis
      unfolding minus_words_loop_lookup lookup_value_or_zero [of d2r k]
      using dom val by (auto simp: candidate_def)
  qed
  have "sorted_list_of_fmap ?D = map (\<lambda>k. (k, tf_idf_sum s query k))
          (sorted_list_of_set {k. candidate s query document_predicate k})"
    by (rule sorted_list_of_fmap_eq) (rule lookup)
  moreover have "result = map (make_Document s) (sorted_list_of_fmap ?D)"
    using res by (simp add: result_loop_eq split: if_splits)
  ultimately show ?thesis by (simp add: comp_def)
qed

lemma plus_posting_loop_total:
  "\<forall>k \<in> fst ` set items. k |\<in>| fmdom (m_documents s) \<Longrightarrow>
     \<exists>d2r'. plus_posting_loop s document_predicate idf items d2r = Inr d2r'"
proof (induction items arbitrary: d2r)
  case Nil
  then show ?case by simp
next
  case (Cons a items)
  obtain k tf where a: "a = (k, tf)" by (cases a)
  with Cons.prems obtain document_data where "fmlookup (m_documents s) k = Some document_data"
    by (auto simp: fmlookup_dom_iff)
  then show ?case
    using a Cons.IH Cons.prems by simp
qed

lemma plus_words_loop_total:
  "postings_indexed s \<Longrightarrow> \<exists>d2r'. plus_words_loop s document_predicate words d2r = Inr d2r'"
proof (induction words arbitrary: d2r)
  case Nil
  then show ?case by simp
next
  case (Cons word words)
  show ?case
  proof (cases "fmlookup (m_word_to_document_freqs s) word")
    case None
    then show ?thesis using Cons by simp
  next
    case (Some posting)
    have "k |\<in>| fmdom (m_documents s)" if "k |\<in>| fmdom posting" for k
    proof -
      from that Some have "in_posting s word k" by (simp add: in_posting_def)
      with Cons.prems show ?thesis unfolding postings_indexed_def by blast
    qed
    then have "\<forall>k \<in> fst ` set (sorted_list_of_fmap posting). k |\<in>| fmdom (m_documents s)"
      by (simp only: fst_set_sorted_list_of_fmap fmdom'_alt_def) simp
    from plus_posting_loop_total [OF this]
    obtain d2r1 where "plus_posting_loop s document_predicate (inverse_document_freq s word)
        (sorted_list_of_fmap posting) d2r = Inr d2r1" by blast
    then show ?thesis
      using Some Cons.IH [OF Cons.prems, of d2r1]
      by (simp add: ComputeWordInverseDocumentFreq_eq)
  qed
qed

lemma FindAllDocuments_total:
  assumes "postings_indexed s"
  shows "\<exists>result. FindAllDocuments s query document_predicate = Inr result"
proof -
  from plus_words_loop_total [OF assms]
  obtain d2r where plus: "plus_words_loop s document_predicate
      (sorted_list_of_fset (plus_words query)) fmempty = Inr d2r" by blast
  let ?D = "minus_words_loop s (sorted_list_of_fset (minus_words query)) d2r"
  have "k |\<in>| fmdom (m_documents s)" if "k \<in> fst ` set (sorted_list_of_fmap ?D)" for k
  proof -
    from that have "k |\<in>| fmdom ?D"
      by (simp only: fst_set_sorted_list_of_fmap fmdom'_alt_def)
    then have "k |\<in>| fmdom d2r"
      by (auto simp: fmlookup_dom_iff minus_words_loop_lookup split: if_splits)
    then show ?thesis
      using plus_words_loop_dom [OF plus, of k] by (auto dest: passes_indexed)
  qed
  then show ?thesis
    by (simp add: FindAllDocuments_def plus result_loop_eq)
qed

subsection \<open>The sorted result\<close>

lemma set_linear_insert: "set (linear_insert cmp val ys) = insert val (set ys)"
  by (induction ys) auto

lemma length_linear_insert: "length (linear_insert cmp val ys) = Suc (length ys)"
  by (induction ys) auto

lemma set_insertion_step: "set (insertion_step cmp prefix val) = insert val (set prefix)"
  by (simp add: insertion_step_def set_linear_insert)

lemma length_insertion_step: "length (insertion_step cmp prefix val) = Suc (length prefix)"
  by (simp add: insertion_step_def length_linear_insert)

lemma set_foldl_insertion_step:
  "set (foldl (insertion_step cmp) acc xs) = set acc \<union> set xs"
  by (induction xs arbitrary: acc) (auto simp: set_insertion_step)

lemma length_foldl_insertion_step:
  "length (foldl (insertion_step cmp) acc xs) = length acc + length xs"
  by (induction xs arbitrary: acc) (auto simp: length_insertion_step)

lemma set_std_sort: "set (std_sort cmp xs) = set xs"
  by (simp add: std_sort_def set_foldl_insertion_step)

lemma length_std_sort: "length (std_sort cmp xs) = length xs"
  by (simp add: std_sort_def length_foldl_insertion_step)

lemma std_sort_Nil: "std_sort cmp [] = []"
  by (simp add: std_sort_def)

lemma FindTopDocuments_Inr:
  assumes "FindTopDocuments s raw_query document_predicate = Inr result"
  shows "\<exists>query. ParseQuery s raw_query = Inr query \<and>
           set result \<subseteq> (\<lambda>k. make_Document s (k, tf_idf_sum s query k)) `
                          {k. candidate s query document_predicate k}"
proof -
  from assms obtain query where parse: "ParseQuery s raw_query = Inr query"
    by (auto simp: FindTopDocuments_def split: if_splits sum.splits)
  show ?thesis
  proof (cases "is_degenerate query")
    case True
    with assms parse have "result = []"
      by (auto simp: FindTopDocuments_def split: if_splits)
    with parse show ?thesis by simp
  next
    case False
    with assms parse obtain found
      where found: "FindAllDocuments s query document_predicate = Inr found"
        and result: "result = (if length (std_sort compare_documents found) > MAX_RESULT_DOCUMENT_COUNT
                      then take MAX_RESULT_DOCUMENT_COUNT (std_sort compare_documents found)
                      else std_sort compare_documents found)"
      by (auto simp: FindTopDocuments_def split: if_splits sum.splits)
    have "set result \<subseteq> set found"
      using set_take_subset [of MAX_RESULT_DOCUMENT_COUNT "std_sort compare_documents found"]
      by (auto simp: result set_std_sort)
    moreover have "set found = (\<lambda>k. make_Document s (k, tf_idf_sum s query k)) `
                          {k. candidate s query document_predicate k}"
      unfolding FindAllDocuments_Inr [OF found]
      by (simp add: finite_candidates)
    ultimately show ?thesis using parse by blast
  qed
qed

subsection \<open>What \<^verbatim>\<open>AddDocument\<close> stores, and what holds of every reachable server\<close>

lemma add_freq_lookup:
  "fmlookup (add_freq document_id inc word freqs) w =
     (if w = word
      then Some (fmupd document_id (value_or_zero (posting_of freqs word) document_id + inc)
                   (posting_of freqs word))
      else fmlookup freqs w)"
  by (auto simp: add_freq_def posting_of_def value_or_zero_def Let_def split: option.splits)

lemma posting_of_add_freq:
  "posting_of (add_freq document_id inc word freqs) w =
     (if w = word
      then fmupd document_id (value_or_zero (posting_of freqs word) document_id + inc)
             (posting_of freqs word)
      else posting_of freqs w)"
  unfolding posting_of_def [of "add_freq document_id inc word freqs"] add_freq_lookup
  by (simp add: posting_of_def)

lemma fold_add_freq_lookup:
  "fmlookup (fold (add_freq document_id inc) words freqs) w =
     (if w \<in> set words
      then Some (fmupd document_id
                   (value_or_zero (posting_of freqs w) document_id
                      + real (count_list words w) * inc)
                   (posting_of freqs w))
      else fmlookup freqs w)"
proof (induction words arbitrary: freqs)
  case Nil
  then show ?case by simp
next
  case (Cons word words)
  note IH = Cons.IH [of "add_freq document_id inc word freqs"]
  show ?case
  proof (cases "w = word")
    case True
    show ?thesis
    proof (cases "w \<in> set words")
      case in_rest: True
      have "fmlookup (fold (add_freq document_id inc) (word # words) freqs) w =
          Some (fmupd document_id
                   (value_or_zero (posting_of (add_freq document_id inc word freqs) w) document_id
                      + real (count_list words w) * inc)
                   (posting_of (add_freq document_id inc word freqs) w))"
        using IH in_rest by simp
      also have "posting_of (add_freq document_id inc word freqs) w =
          fmupd document_id (value_or_zero (posting_of freqs w) document_id + inc)
             (posting_of freqs w)"
        using True by (simp add: posting_of_add_freq)
      finally show ?thesis
        using True by (simp add: value_or_zero_def algebra_simps)
    next
      case False
      then have "count_list words w = 0" by (simp add: count_list_0_iff)
      then show ?thesis
        using True False IH by (simp add: add_freq_lookup)
    qed
  next
    case False
    then show ?thesis
      using IH by (simp add: posting_of_add_freq add_freq_lookup)
  qed
qed

lemma AddDocument_success:
  assumes "AddDocument s document_id document status ratings = (s', None)"
  shows "document_id |\<notin>| fmdom (m_documents s)" and "0 \<le> document_id"
    and "IsValidWord document"
    and "s' = s\<lparr>m_word_to_document_freqs :=
                 fold (add_freq document_id (1 / real (length (indexed_words s document))))
                   (indexed_words s document) (m_word_to_document_freqs s),
               m_documents := fmupd document_id
                 \<lparr>data_rating = ComputeAverageRating ratings, data_status = status\<rparr>
                 (m_documents s),
               m_ids := m_ids s @ [document_id]\<rparr>"
  using assms by (auto simp: AddDocument_cases indexed_words_def split: if_splits)

lemma in_posting_AddDocument:
  assumes "AddDocument s document_id document status ratings = (s', None)"
  shows "in_posting s' w k \<longleftrightarrow>
           in_posting s w k \<or> (k = document_id \<and> w \<in> set (indexed_words s document))"
  unfolding AddDocument_success(4) [OF assms] in_posting_def
  by (auto simp: fold_add_freq_lookup posting_of_def split: option.splits)

lemma stop_words_AddDocument:
  "m_stop_words (fst (AddDocument s document_id document status ratings)) = m_stop_words s"
  by (simp add: AddDocument_cases)

lemma reachable_stop_words_valid:
  "reachable s \<Longrightarrow> w |\<in>| m_stop_words s \<Longrightarrow> IsValidWord w"
proof (induction rule: reachable.induct)
  case reachable_default
  then show ?case by (simp add: SearchServer_default_def)
next
  case (reachable_container stop_words_arg s)
  then show ?case
    by (auto simp: SearchServer_of_container_def MakeUniqueNonEmptyStrings_def
        SearchServer_default_def fset_of_list_elem list_all_iff Let_def split: if_splits)
next
  case (reachable_add s document_id document status ratings s')
  then show ?case
    using stop_words_AddDocument [of s document_id document status ratings] by simp
qed

lemma reachable_postings_indexed: "reachable s \<Longrightarrow> postings_indexed s"
proof (induction rule: reachable.induct)
  case reachable_default
  then show ?case
    by (simp add: postings_indexed_def in_posting_def SearchServer_default_def)
next
  case (reachable_container stop_words_arg s)
  then show ?case
    by (auto simp: postings_indexed_def in_posting_def SearchServer_of_container_def
        SearchServer_default_def Let_def split: if_splits)
next
  case (reachable_add s document_id document status ratings s')
  have docs: "fmdom (m_documents s') = finsert document_id (fmdom (m_documents s))"
    by (simp add: AddDocument_success(4) [OF reachable_add.hyps(2)])
  show ?case
    unfolding postings_indexed_def in_posting_AddDocument [OF reachable_add.hyps(2)] docs
    using reachable_add.IH by (auto simp: postings_indexed_def)
qed

lemma reachable_ids:
  "reachable s \<Longrightarrow> distinct (m_ids s) \<and> set (m_ids s) = fmdom' (m_documents s)"
proof (induction rule: reachable.induct)
  case reachable_default
  then show ?case by (simp add: SearchServer_default_def)
next
  case (reachable_container stop_words_arg s)
  then show ?case
    by (auto simp: SearchServer_of_container_def SearchServer_default_def Let_def
        split: if_splits)
next
  case (reachable_add s document_id document status ratings s')
  have fresh: "document_id \<notin> fmdom' (m_documents s)"
    using AddDocument_success(1) [OF reachable_add.hyps(2)] by (simp add: fmdom'_alt_def)
  show ?case
    using reachable_add.IH fresh
    by (simp add: AddDocument_success(4) [OF reachable_add.hyps(2)])
qed

lemma reachable_length_ids:
  assumes "reachable s"
  shows "int (length (m_ids s)) = GetDocumentCount s"
proof -
  from reachable_ids [OF assms]
  have "length (m_ids s) = card (fmdom' (m_documents s))"
    using distinct_card [of "m_ids s"] by simp
  then show ?thesis
    by (simp add: GetDocumentCount_def fcard.rep_eq fmdom'_alt_def)
qed

lemma MatchDocument_no_missing: "MatchDocument s raw_query document_id \<noteq> Inl AtOutOfRange"
  by (auto simp: MatchDocument_def Let_def fmlookup_dom_iff split: sum.splits option.splits)
    (auto simp: ParseQuery_eq split: if_splits)

lemma FindTopDocuments_no_missing:
  assumes "postings_indexed s"
  shows "FindTopDocuments s raw_query document_predicate \<noteq> Inl AtOutOfRange"
proof -
  have "FindAllDocuments s query document_predicate \<noteq> Inl AtOutOfRange" for query
    using FindAllDocuments_total [OF assms, of query document_predicate] by auto
  then show ?thesis
    by (auto simp: FindTopDocuments_def ParseQuery_eq split: sum.splits if_splits)
qed

lemma FindTopDocuments_total:
  assumes "postings_indexed s" and "IsValidWord raw_query" and "raw_query \<noteq> []"
    and "ParseQuery s raw_query = Inr query"
  shows "\<exists>result. FindTopDocuments s raw_query document_predicate = Inr result"
  using FindAllDocuments_total [OF assms(1), of query document_predicate] assms(2-4)
  by (auto simp: FindTopDocuments_def)

subsection \<open>Two small servers\<close>

lemma server_cat_dog_eq:
  "server_cat_dog =
     \<lparr>m_stop_words = {||},
      m_word_to_document_freqs =
        fmupd ''dog'' (fmupd 2 1 fmempty) (fmupd ''cat'' (fmupd 1 1 fmempty) fmempty),
      m_documents = fmupd 2 \<lparr>data_rating = 7, data_status = BANNED\<rparr>
                      (fmupd 1 \<lparr>data_rating = 1, data_status = ACTUAL\<rparr> fmempty),
      m_ids = [1, 2]\<rparr>"
  by (simp add: server_cat_dog_def AddDocument_cases SplitIntoWords_def SearchServer_default_def
      IsValidWord_def is_special_def IsStopWord_def ComputeAverageRating_def int32_def
      signed_divide_int_def add_freq_def)

lemma reachable_cat_dog: "reachable server_cat_dog"
proof -
  let ?s1 = "fst (AddDocument SearchServer_default 1 ''cat'' ACTUAL [1, 2])"
  have 1: "AddDocument SearchServer_default 1 ''cat'' ACTUAL [1, 2] = (?s1, None)"
    by (simp add: AddDocument_cases SearchServer_default_def IsValidWord_def is_special_def)
  have 2: "AddDocument ?s1 2 ''dog'' BANNED [7] = (server_cat_dog, None)"
    by (simp add: server_cat_dog_def AddDocument_cases SearchServer_default_def IsValidWord_def
        is_special_def)
  show ?thesis
    by (rule reachable_add [OF reachable_add [OF reachable_default 1] 2])
qed

lemma reachable_stop_in: "reachable server_stop_in"
proof (rule reachable_container)
  show "SearchServer_of_container [''in''] = Inr server_stop_in"
    by (simp add: SearchServer_of_container_def server_stop_in_def MakeUniqueNonEmptyStrings_def
        IsValidWord_def is_special_def)
qed

lemmas eval_query =
  FindTopDocuments_def IsValidWord_def is_special_def ParseQuery_def SplitIntoWords_def
  ParseQueryWord_def IsStopWord_def empty_Query_def is_degenerate_def FindAllDocuments_def
  sorted_list_of_fset.rep_eq ComputeWordInverseDocumentFreq_def GetDocumentCount_def
  sorted_list_of_fmap_def accept_all_def add_relevance_def std_sort_def insertion_step_def
  MAX_RESULT_DOCUMENT_COUNT_def fcard.rep_eq

lemma FindAllDocuments_no_plus:
  "plus_words query = {||} \<Longrightarrow> FindAllDocuments s query document_predicate = Inr []"
proof -
  assume "plus_words query = {||}"
  then have plus: "sorted_list_of_fset (plus_words query) = []"
    by (simp add: sorted_list_of_fset_empty)
  have "fmdom (minus_words_loop s words fmempty) = {||}" for words
    by (rule fset_eqI) (simp add: fmlookup_dom_iff minus_words_loop_lookup)
  then have "sorted_list_of_fmap (minus_words_loop s words fmempty) = []" for words
    by (simp add: sorted_list_of_fmap_def sorted_list_of_fset_empty)
  then show ?thesis
    by (simp add: FindAllDocuments_def plus)
qed

subsection \<open>Forbidden terms\<close>

text \<open>
  Claim C3: whenever \<^verbatim>\<open>FindTopDocuments\<close> returns, no document of its result is in the
  posting of a forbidden term of the query, whatever the required terms and the predicate
  are; and a valid query without required terms, so in particular one made of forbidden
  terms only, returns the empty vector.
\<close>

theorem forbidden_terms_exclude:
  "(FindTopDocuments s raw_query document_predicate = Inr result \<longrightarrow>
      (\<exists>query. ParseQuery s raw_query = Inr query \<and>
         (\<forall>d \<in> set result. \<forall>word \<in> fset (minus_words query).
            \<not> in_posting s word (doc_id d)))) \<and>
   (IsValidWord raw_query \<and> raw_query \<noteq> [] \<and> ParseQuery s raw_query = Inr query' \<and>
      plus_words query' = {||} \<longrightarrow>
      FindTopDocuments s raw_query document_predicate = Inr [])"
proof (intro conjI impI)
  assume "FindTopDocuments s raw_query document_predicate = Inr result"
  from FindTopDocuments_Inr [OF this] obtain query
    where parse: "ParseQuery s raw_query = Inr query"
      and sub: "set result \<subseteq> (\<lambda>k. make_Document s (k, tf_idf_sum s query k)) `
                          {k. candidate s query document_predicate k}"
    by blast
  have "\<forall>d \<in> set result. \<forall>word \<in> fset (minus_words query). \<not> in_posting s word (doc_id d)"
    using sub by (auto simp: candidate_def make_Document_def)
  with parse show "\<exists>query. ParseQuery s raw_query = Inr query \<and>
         (\<forall>d \<in> set result. \<forall>word \<in> fset (minus_words query).
            \<not> in_posting s word (doc_id d))"
    by blast
next
  assume "IsValidWord raw_query \<and> raw_query \<noteq> [] \<and> ParseQuery s raw_query = Inr query' \<and>
      plus_words query' = {||}"
  then show "FindTopDocuments s raw_query document_predicate = Inr []"
    by (simp add: FindTopDocuments_def FindAllDocuments_no_plus std_sort_Nil)
qed

text \<open>Claim C3 at the queries \<^verbatim>\<open>cat dog -dog\<close>, where the document 2 scores on \<^verbatim>\<open>dog\<close> and
  is removed, and \<^verbatim>\<open>-cat -dog\<close>, whose forbidden terms are all the terms of the corpus.\<close>

theorem forbidden_terms_exclude_witness:
  "FindTopDocuments server_cat_dog ''cat dog -dog'' accept_all
     = Inr [\<lparr>doc_id = 1, relevance = ln 2, rating = 1\<rparr>] \<and>
   ParseQuery server_cat_dog ''cat dog -dog''
     = Inr \<lparr>plus_words = {|''cat'', ''dog''|}, minus_words = {|''dog''|}, stop_words = {||}\<rparr> \<and>
   in_posting server_cat_dog ''dog'' 2 \<and> \<not> in_posting server_cat_dog ''dog'' 1 \<and>
   ParseQuery server_cat_dog ''-cat -dog''
     = Inr \<lparr>plus_words = {||}, minus_words = {|''cat'', ''dog''|}, stop_words = {||}\<rparr> \<and>
   FindTopDocuments server_cat_dog ''-cat -dog'' accept_all = Inr []"
proof -
  have find: "FindTopDocuments server_cat_dog ''cat dog -dog'' accept_all
     = Inr [\<lparr>doc_id = 1, relevance = ln 2, rating = 1\<rparr>]"
    by (simp add: eval_query server_cat_dog_eq)
  have parse: "ParseQuery server_cat_dog ''cat dog -dog''
     = Inr \<lparr>plus_words = {|''cat'', ''dog''|}, minus_words = {|''dog''|}, stop_words = {||}\<rparr>"
    by (simp add: eval_query server_cat_dog_eq) blast
  have parse': "ParseQuery server_cat_dog ''-cat -dog''
     = Inr \<lparr>plus_words = {||}, minus_words = {|''cat'', ''dog''|}, stop_words = {||}\<rparr>"
    by (simp add: eval_query server_cat_dog_eq) blast
  have valid: "IsValidWord ''-cat -dog''"
    by (simp add: IsValidWord_def is_special_def)
  have post: "in_posting server_cat_dog ''dog'' 2" "\<not> in_posting server_cat_dog ''dog'' 1"
    by (simp_all add: in_posting_def server_cat_dog_eq)
  show ?thesis
    using forbidden_terms_exclude [of server_cat_dog "''cat dog -dog''" accept_all
        "[\<lparr>doc_id = 1, relevance = ln 2, rating = 1\<rparr>]"]
      forbidden_terms_exclude [of server_cat_dog "''-cat -dog''" accept_all _
        "\<lparr>plus_words = {||}, minus_words = {|''cat'', ''dog''|}, stop_words = {||}\<rparr>"]
      find parse parse' valid post
    by simp
qed

subsection \<open>Relevance\<close>

text \<open>
  Claim C1: the relevance of every document in a result of \<^verbatim>\<open>FindTopDocuments\<close>, and of
  every document that \<^verbatim>\<open>FindAllDocuments\<close> finds before the result is cut, is the sum,
  over the required terms of the query that the index holds, of the term frequency of the
  term in the document times the logarithm of the number of documents over the number of
  documents in the posting of the term. A required term that the index does not hold is
  not in the sum, and it raises nothing: on a reachable server every valid non-empty query
  that parses gets a result. (Doubles are taken as reals.)
\<close>

theorem relevance_is_tf_idf_sum:
  "(FindTopDocuments s raw_query document_predicate = Inr result \<and> d \<in> set result \<longrightarrow>
      (\<exists>query. ParseQuery s raw_query = Inr query \<and>
         relevance d =
           (\<Sum>word \<in> fset (plus_words query) \<inter> fmdom' (m_word_to_document_freqs s).
              term_freq s word (doc_id d) * inverse_document_freq s word))) \<and>
   (FindAllDocuments s query' document_predicate = Inr found \<and> d' \<in> set found \<longrightarrow>
      relevance d' =
        (\<Sum>word \<in> fset (plus_words query') \<inter> fmdom' (m_word_to_document_freqs s).
           term_freq s word (doc_id d') * inverse_document_freq s word)) \<and>
   (reachable s \<and> IsValidWord raw_query \<and> raw_query \<noteq> [] \<and>
      ParseQuery s raw_query = Inr query' \<longrightarrow>
      (\<exists>result'. FindTopDocuments s raw_query document_predicate = Inr result'))"
proof (intro conjI impI)
  assume "FindTopDocuments s raw_query document_predicate = Inr result \<and> d \<in> set result"
  then have find: "FindTopDocuments s raw_query document_predicate = Inr result"
    and d: "d \<in> set result" by simp_all
  from FindTopDocuments_Inr [OF find] obtain query
    where parse: "ParseQuery s raw_query = Inr query"
      and sub: "set result \<subseteq> (\<lambda>k. make_Document s (k, tf_idf_sum s query k)) `
                          {k. candidate s query document_predicate k}"
    by blast
  from sub d have "relevance d = tf_idf_sum s query (doc_id d)"
    by (auto simp: make_Document_def)
  with parse show "\<exists>query. ParseQuery s raw_query = Inr query \<and>
         relevance d =
           (\<Sum>word \<in> fset (plus_words query) \<inter> fmdom' (m_word_to_document_freqs s).
              term_freq s word (doc_id d) * inverse_document_freq s word)"
    unfolding tf_idf_sum_def by blast
next
  assume "FindAllDocuments s query' document_predicate = Inr found \<and> d' \<in> set found"
  then have "relevance d' = tf_idf_sum s query' (doc_id d')"
    using FindAllDocuments_Inr [of s query' document_predicate found]
    by (auto simp: make_Document_def finite_candidates)
  then show "relevance d' =
        (\<Sum>word \<in> fset (plus_words query') \<inter> fmdom' (m_word_to_document_freqs s).
           term_freq s word (doc_id d') * inverse_document_freq s word)"
    by (simp only: tf_idf_sum_def)
next
  assume "reachable s \<and> IsValidWord raw_query \<and> raw_query \<noteq> [] \<and>
      ParseQuery s raw_query = Inr query'"
  then show "\<exists>result'. FindTopDocuments s raw_query document_predicate = Inr result'"
    using FindTopDocuments_total [of s raw_query query' document_predicate]
    by (simp add: reachable_postings_indexed)
qed

text \<open>Claim C1 at the query \<^verbatim>\<open>cat emu\<close>: the index holds \<^verbatim>\<open>cat\<close>, in one document of two,
  and does not hold \<^verbatim>\<open>emu\<close>.\<close>

theorem relevance_is_tf_idf_sum_witness:
  "reachable server_cat_dog \<and>
   FindTopDocuments server_cat_dog ''cat emu'' accept_all
     = Inr [\<lparr>doc_id = 1, relevance = ln 2, rating = 1\<rparr>] \<and>
   FindAllDocuments server_cat_dog
     \<lparr>plus_words = {|''cat'', ''emu''|}, minus_words = {||}, stop_words = {||}\<rparr> accept_all
     = Inr [\<lparr>doc_id = 1, relevance = ln 2, rating = 1\<rparr>] \<and>
   ParseQuery server_cat_dog ''cat emu''
     = Inr \<lparr>plus_words = {|''cat'', ''emu''|}, minus_words = {||}, stop_words = {||}\<rparr> \<and>
   {|''cat'', ''emu''|} |\<inter>| fmdom (m_word_to_document_freqs server_cat_dog) = {|''cat''|} \<and>
   term_freq server_cat_dog ''cat'' 1 = 1 \<and>
   inverse_document_freq server_cat_dog ''cat'' = ln (2 / 1) \<and>
   ln 2 = (\<Sum>word \<in> fset {|''cat'', ''emu''|} \<inter> fmdom' (m_word_to_document_freqs server_cat_dog).
              term_freq server_cat_dog word 1 * inverse_document_freq server_cat_dog word)"
proof -
  have find: "FindTopDocuments server_cat_dog ''cat emu'' accept_all
     = Inr [\<lparr>doc_id = 1, relevance = ln 2, rating = 1\<rparr>]"
    by (simp add: eval_query server_cat_dog_eq)
  have parse: "ParseQuery server_cat_dog ''cat emu''
     = Inr \<lparr>plus_words = {|''cat'', ''emu''|}, minus_words = {||}, stop_words = {||}\<rparr>"
    by (simp add: eval_query server_cat_dog_eq) blast
  have order: "sorted_list_of_set {''cat'', ''emu''} = [''cat'', ''emu'']"
    by simp
  have found: "FindAllDocuments server_cat_dog
     \<lparr>plus_words = {|''cat'', ''emu''|}, minus_words = {||}, stop_words = {||}\<rparr> accept_all
     = Inr [\<lparr>doc_id = 1, relevance = ln 2, rating = 1\<rparr>]"
    by (simp add: eval_query server_cat_dog_eq order)
  have inter: "{|''cat'', ''emu''|} |\<inter>| fmdom (m_word_to_document_freqs server_cat_dog) = {|''cat''|}"
    by (simp add: server_cat_dog_eq)
  have tf: "term_freq server_cat_dog ''cat'' 1 = 1"
    by (simp add: term_freq_def server_cat_dog_eq value_or_zero_def)
  have idf: "inverse_document_freq server_cat_dog ''cat'' = ln (2 / 1)"
    by (simp add: inverse_document_freq_def server_cat_dog_eq GetDocumentCount_def fcard.rep_eq)
  show ?thesis
    using relevance_is_tf_idf_sum [of server_cat_dog "''cat emu''" accept_all
        "[\<lparr>doc_id = 1, relevance = ln 2, rating = 1\<rparr>]"
        "\<lparr>doc_id = 1, relevance = ln 2, rating = 1\<rparr>"
        "\<lparr>plus_words = {|''cat'', ''emu''|}, minus_words = {||}, stop_words = {||}\<rparr>"
        "[\<lparr>doc_id = 1, relevance = ln 2, rating = 1\<rparr>]"
        "\<lparr>doc_id = 1, relevance = ln 2, rating = 1\<rparr>"]
      find found parse inter tf idf reachable_cat_dog
    by simp
qed

subsection \<open>Invariants\<close>

text \<open>
  Claim C9: on every server reached from a constructor by calls of \<^verbatim>\<open>AddDocument\<close> that
  returned normally, the vector of ids holds exactly the ids of the document map, each once,
  and every document of every posting is in the document map; so no \<^verbatim>\<open>at\<close> of
  \<^verbatim>\<open>FindTopDocuments\<close>, \<^verbatim>\<open>MatchDocument\<close> and \<^verbatim>\<open>GetDocumentId\<close> throws.
\<close>

theorem reachable_invariants:
  assumes "reachable s"
  shows "distinct (m_ids s) \<and> set (m_ids s) = fmdom' (m_documents s) \<and>
         (\<forall>word posting document_id.
            fmlookup (m_word_to_document_freqs s) word = Some posting \<and>
            document_id |\<in>| fmdom posting \<longrightarrow> document_id |\<in>| fmdom (m_documents s)) \<and>
         (\<forall>raw_query document_predicate.
            FindTopDocuments s raw_query document_predicate \<noteq> Inl AtOutOfRange) \<and>
         (\<forall>raw_query document_id. MatchDocument s raw_query document_id \<noteq> Inl AtOutOfRange) \<and>
         (\<forall>index. GetDocumentId s index \<noteq> Inl AtOutOfRange)"
proof -
  have "document_id |\<in>| fmdom (m_documents s)"
    if "fmlookup (m_word_to_document_freqs s) word = Some posting"
      and "document_id |\<in>| fmdom posting" for word posting document_id
  proof -
    from that have "in_posting s word document_id" by (simp add: in_posting_def)
    with reachable_postings_indexed [OF assms] show ?thesis
      unfolding postings_indexed_def by blast
  qed
  moreover have "GetDocumentId s index \<noteq> Inl AtOutOfRange" for index
    using reachable_length_ids [OF assms] by (auto simp: GetDocumentId_def)
  ultimately show ?thesis
    using reachable_ids [OF assms] reachable_postings_indexed [OF assms]
    by (simp add: FindTopDocuments_no_missing MatchDocument_no_missing) blast
qed

text \<open>Claim C9 at the server with the documents 1 and 2.\<close>

theorem reachable_invariants_witness:
  "reachable server_cat_dog \<and> m_ids server_cat_dog = [1, 2] \<and>
   distinct (m_ids server_cat_dog) \<and>
   set (m_ids server_cat_dog) = fmdom' (m_documents server_cat_dog) \<and>
   fmdom' (m_documents server_cat_dog) = {1, 2} \<and>
   fmlookup (m_word_to_document_freqs server_cat_dog) ''dog'' = Some (fmupd 2 1 fmempty) \<and>
   2 |\<in>| fmdom (m_documents server_cat_dog) \<and>
   GetDocumentId server_cat_dog 1 = Inr 2"
proof -
  have "m_ids server_cat_dog = [1, 2]" "fmdom' (m_documents server_cat_dog) = {1, 2}"
    "fmlookup (m_word_to_document_freqs server_cat_dog) ''dog'' = Some (fmupd 2 1 fmempty)"
    "GetDocumentId server_cat_dog 1 = Inr 2" "2 |\<in>| fmdom (m_documents server_cat_dog)"
    by (auto simp: server_cat_dog_eq GetDocumentId_def GetDocumentCount_def fcard.rep_eq)
  then show ?thesis
    using reachable_invariants [OF reachable_cat_dog] reachable_cat_dog by simp
qed

subsection \<open>A document made of stop words\<close>

text \<open>
  Claim C6: on a reachable server, \<^verbatim>\<open>AddDocument\<close> with an id that is not indexed and not
  negative and a text whose words are all stop words returns normally; it stores the
  rating and the status under the id and appends the id, so the document count grows by
  one, \<^verbatim>\<open>GetDocumentId\<close> returns the id at the last position and \<^verbatim>\<open>MatchDocument\<close> returns
  the status; the index of the words is unchanged, and no posting holds the document.
\<close>

theorem AddDocument_stop_words_only:
  assumes "reachable s" and "document_id |\<notin>| fmdom (m_documents s)" and "0 \<le> document_id"
    and "\<forall>word \<in> set (SplitIntoWords document). IsStopWord s word"
  shows "AddDocument s document_id document status ratings =
           (s\<lparr>m_documents := fmupd document_id
                  \<lparr>data_rating = ComputeAverageRating ratings, data_status = status\<rparr>
                  (m_documents s),
               m_ids := m_ids s @ [document_id]\<rparr>, None) \<and>
         GetDocumentCount (fst (AddDocument s document_id document status ratings))
           = GetDocumentCount s + 1 \<and>
         GetDocumentId (fst (AddDocument s document_id document status ratings))
           (GetDocumentCount s) = Inr document_id \<and>
         MatchDocument (fst (AddDocument s document_id document status ratings)) '''' document_id
           = Inr ([], status) \<and>
         (\<forall>word. \<not> in_posting (fst (AddDocument s document_id document status ratings)) word
            document_id)"
proof -
  let ?s' = "s\<lparr>m_documents := fmupd document_id
                  \<lparr>data_rating = ComputeAverageRating ratings, data_status = status\<rparr>
                  (m_documents s),
               m_ids := m_ids s @ [document_id]\<rparr>"
  have "\<forall>word \<in> set (SplitIntoWords document). IsValidWord word"
    using assms(4) reachable_stop_words_valid [OF assms(1)] by (auto simp: IsStopWord_def)
  then have valid: "IsValidWord document"
    by (simp add: IsValidWord_SplitIntoWords [of document])
  have none: "filter (\<lambda>w. \<not> IsStopWord s w) (SplitIntoWords document) = []"
    using assms(4) by (intro filter_False_all) simp
  have add: "AddDocument s document_id document status ratings = (?s', None)"
    using assms(2,3) valid by (simp add: AddDocument_cases none)
  have count: "GetDocumentCount ?s' = GetDocumentCount s + 1"
    using assms(2) by (simp add: GetDocumentCount_def fcard_finsert_disjoint)
  have len: "nat (GetDocumentCount s) = length (m_ids s)"
    using reachable_length_ids [OF assms(1)] by simp
  have "0 \<le> GetDocumentCount s" by (simp add: GetDocumentCount_def)
  then have id_at: "GetDocumentId ?s' (GetDocumentCount s) = Inr document_id"
    unfolding GetDocumentId_def count by (simp add: len)
  have "ParseQuery ?s' '''' = Inr empty_Query"
    by (simp add: ParseQuery_def SplitIntoWords_def)
  then have match: "MatchDocument ?s' '''' document_id = Inr ([], status)"
    by (simp add: MatchDocument_def empty_Query_def is_degenerate_def sorted_list_of_fset_empty)
  have "\<not> in_posting s word document_id" for word
    using reachable_postings_indexed [OF assms(1)] assms(2)
    unfolding postings_indexed_def by blast
  then have posting: "\<forall>word. \<not> in_posting ?s' word document_id"
    by (simp add: in_posting_def)
  show ?thesis
    unfolding add fst_conv using count id_at match posting by simp
qed

text \<open>Claim C6 at the stop word \<^verbatim>\<open>in\<close> and the text \<^verbatim>\<open>in  in\<close>.\<close>

theorem AddDocument_stop_words_only_witness:
  "reachable server_stop_in \<and> 5 |\<notin>| fmdom (m_documents server_stop_in) \<and>
   SplitIntoWords ''in  in'' = [''in'', ''in''] \<and> IsStopWord server_stop_in ''in'' \<and>
   AddDocument server_stop_in 5 ''in  in'' BANNED [3, 4] =
     (server_stop_in\<lparr>m_documents := fmupd 5 \<lparr>data_rating = 3, data_status = BANNED\<rparr> fmempty,
                      m_ids := [5]\<rparr>, None) \<and>
   GetDocumentCount (fst (AddDocument server_stop_in 5 ''in  in'' BANNED [3, 4])) = 1 \<and>
   GetDocumentId (fst (AddDocument server_stop_in 5 ''in  in'' BANNED [3, 4])) 0 = Inr 5 \<and>
   MatchDocument (fst (AddDocument server_stop_in 5 ''in  in'' BANNED [3, 4])) '''' 5
     = Inr ([], BANNED)"
proof -
  have fresh: "5 |\<notin>| fmdom (m_documents server_stop_in)"
    by (simp add: server_stop_in_def SearchServer_default_def)
  have split: "SplitIntoWords ''in  in'' = [''in'', ''in'']"
    by (simp add: SplitIntoWords_def)
  have stop: "IsStopWord server_stop_in ''in''"
    by (simp add: IsStopWord_def server_stop_in_def)
  have rating: "ComputeAverageRating [3, 4] = 3"
    by (simp add: ComputeAverageRating_def int32_def signed_divide_int_def)
  have empty: "m_documents server_stop_in = fmempty" "m_ids server_stop_in = []"
    "GetDocumentCount server_stop_in = 0"
    by (simp_all add: server_stop_in_def SearchServer_default_def GetDocumentCount_def)
  show ?thesis
    using AddDocument_stop_words_only [OF reachable_stop_in fresh, of "''in  in''" BANNED "[3, 4]"]
      reachable_stop_in fresh stop
    by (auto simp: split rating empty)
qed

subsection \<open>The order of the result\<close>

lemma SplitIntoWords_loop_word:
  "CHR '' '' \<notin> set w \<Longrightarrow> SplitIntoWords_loop (w @ str) words word
     = SplitIntoWords_loop str words (word @ w)"
  by (induction w arbitrary: word) auto

lemma SplitIntoWords_loop_join:
  "\<forall>w \<in> set ws. w \<noteq> [] \<and> CHR '' '' \<notin> set w \<Longrightarrow>
     SplitIntoWords_loop (join_words ws) words [] = words @ ws"
proof (induction ws arbitrary: words rule: join_words.induct)
  case 1
  then show ?case by simp
next
  case (2 word)
  then show ?case
    using SplitIntoWords_loop_word [of word "[]" "words" "[]"] by simp
next
  case (3 word v rest)
  have "SplitIntoWords_loop (join_words (word # v # rest)) words []
      = SplitIntoWords_loop (CHR '' '' # join_words (v # rest)) words word"
    using 3 SplitIntoWords_loop_word [of word "CHR '' '' # join_words (v # rest)" words "[]"]
    by simp
  also have "\<dots> = SplitIntoWords_loop (join_words (v # rest)) (words @ [word]) []"
    using 3 by simp
  also have "\<dots> = (words @ [word]) @ v # rest"
    using 3 by (intro "3.IH") simp
  finally show ?case by simp
qed

lemma SplitIntoWords_join:
  "\<forall>w \<in> set ws. w \<noteq> [] \<and> CHR '' '' \<notin> set w \<Longrightarrow> SplitIntoWords (join_words ws) = ws"
  by (simp add: SplitIntoWords_def SplitIntoWords_loop_join)

lemma SplitIntoWords_long_document:
  "SplitIntoWords (long_document n) = ''x'' # replicate n ''y''"
  unfolding long_document_def by (rule SplitIntoWords_join) auto

lemma IsValidWord_long_document: "IsValidWord (long_document n)"
  by (simp add: IsValidWord_SplitIntoWords [of "long_document n"] SplitIntoWords_long_document)
    (simp add: IsValidWord_def is_special_def)

lemma indexed_words_long_document:
  "m_stop_words s = {||} \<Longrightarrow> indexed_words s (long_document n) = ''x'' # replicate n ''y''"
  by (simp add: indexed_words_def SplitIntoWords_long_document IsStopWord_def)

lemma AddDocument_long_document:
  assumes "m_stop_words s = {||}" and "document_id |\<notin>| fmdom (m_documents s)"
    and "0 \<le> document_id"
  shows "snd (AddDocument s document_id (long_document n) status ratings) = None"
    and "m_stop_words (fst (AddDocument s document_id (long_document n) status ratings)) = {||}"
    and "m_documents (fst (AddDocument s document_id (long_document n) status ratings)) =
           fmupd document_id \<lparr>data_rating = ComputeAverageRating ratings, data_status = status\<rparr>
             (m_documents s)"
    and "fmlookup (m_word_to_document_freqs
             (fst (AddDocument s document_id (long_document n) status ratings))) ''x'' =
           Some (fmupd document_id
                   (value_or_zero (posting_of (m_word_to_document_freqs s) ''x'') document_id
                      + 1 / (real n + 1))
                   (posting_of (m_word_to_document_freqs s) ''x''))"
proof -
  have words: "filter (\<lambda>w. \<not> IsStopWord s w) (SplitIntoWords (long_document n))
      = ''x'' # replicate n ''y''"
    using indexed_words_long_document [OF assms(1), of n] by (simp add: indexed_words_def)
  have add: "AddDocument s document_id (long_document n) status ratings =
      (s\<lparr>m_word_to_document_freqs :=
            fold (add_freq document_id (1 / real (length (''x'' # replicate n ''y''))))
              (''x'' # replicate n ''y'') (m_word_to_document_freqs s),
          m_documents := fmupd document_id
             \<lparr>data_rating = ComputeAverageRating ratings, data_status = status\<rparr>
             (m_documents s),
          m_ids := m_ids s @ [document_id]\<rparr>, None)"
    using assms(2,3) IsValidWord_long_document [of n]
    by (simp only: AddDocument_cases words if_False not_True_eq_False simp_thms
        not_le [symmetric, of document_id 0])
  have count: "count_list (''x'' # replicate n ''y'') ''x'' = 1"
    by (simp add: count_list_0_iff)
  show "snd (AddDocument s document_id (long_document n) status ratings) = None"
    by (simp add: add)
  show "m_stop_words (fst (AddDocument s document_id (long_document n) status ratings)) = {||}"
    by (simp add: add assms(1))
  show "m_documents (fst (AddDocument s document_id (long_document n) status ratings)) =
           fmupd document_id \<lparr>data_rating = ComputeAverageRating ratings, data_status = status\<rparr>
             (m_documents s)"
    by (simp add: add)
  show "fmlookup (m_word_to_document_freqs
             (fst (AddDocument s document_id (long_document n) status ratings))) ''x'' =
           Some (fmupd document_id
                   (value_or_zero (posting_of (m_word_to_document_freqs s) ''x'') document_id
                      + 1 / (real n + 1))
                   (posting_of (m_word_to_document_freqs s) ''x''))"
    unfolding add fst_conv
    using fold_add_freq_lookup [of document_id "1 / real (length (''x'' # replicate n ''y''))"
        "''x'' # replicate n ''y''" "m_word_to_document_freqs s" "''x''"] count
    by (simp add: add.commute)
qed


lemma ComputeAverageRating_single:
  "ComputeAverageRating [1] = 1" "ComputeAverageRating [2] = 2" "ComputeAverageRating [3] = 3"
  "ComputeAverageRating [4] = 4"
  by (simp_all add: ComputeAverageRating_def int32_def signed_divide_int_def)

lemma server_near_ties_facts:
  "reachable server_near_ties"
  "m_stop_words server_near_ties = {||}"
  "m_documents server_near_ties =
     fmupd 4 \<lparr>data_rating = 4, data_status = ACTUAL\<rparr>
       (fmupd 3 \<lparr>data_rating = 3, data_status = ACTUAL\<rparr>
         (fmupd 2 \<lparr>data_rating = 2, data_status = ACTUAL\<rparr>
           (fmupd 1 \<lparr>data_rating = 1, data_status = ACTUAL\<rparr> fmempty)))"
  "fmlookup (m_word_to_document_freqs server_near_ties) ''x'' =
     Some (fmupd 3 (1 / 602) (fmupd 2 (1 / 601) (fmupd 1 (1 / 600) fmempty)))"
proof -
  let ?s0 = SearchServer_default
  let ?s1 = "fst (AddDocument ?s0 1 (long_document 599) ACTUAL [1])"
  let ?s2 = "fst (AddDocument ?s1 2 (long_document 600) ACTUAL [2])"
  let ?s3 = "fst (AddDocument ?s2 3 (long_document 601) ACTUAL [3])"
  let ?s4 = "fst (AddDocument ?s3 4 ''z'' ACTUAL [4])"
  have s0: "m_stop_words ?s0 = {||}" "m_documents ?s0 = fmempty"
    "m_word_to_document_freqs ?s0 = fmempty"
    by (simp_all add: SearchServer_default_def)
  have f0: "1 |\<notin>| fmdom (m_documents ?s0)" by (simp add: s0)
  note a1 = AddDocument_long_document [OF s0(1) f0, of 599 ACTUAL "[1]"]
  have d1: "m_documents ?s1 = fmupd 1 \<lparr>data_rating = 1, data_status = ACTUAL\<rparr> fmempty"
    using a1(3) by (simp add: s0 ComputeAverageRating_single)
  have x1: "fmlookup (m_word_to_document_freqs ?s1) ''x'' = Some (fmupd 1 (1 / 600) fmempty)"
    using a1(4) by (simp add: s0 posting_of_def value_or_zero_def)
  have f1: "2 |\<notin>| fmdom (m_documents ?s1)" by (simp add: d1)
  note a2 = AddDocument_long_document [OF a1(2) f1, of 600 ACTUAL "[2]"]
  have d2: "m_documents ?s2 = fmupd 2 \<lparr>data_rating = 2, data_status = ACTUAL\<rparr>
      (fmupd 1 \<lparr>data_rating = 1, data_status = ACTUAL\<rparr> fmempty)"
    using a2(3) by (simp add: d1 ComputeAverageRating_single)
  have x2: "fmlookup (m_word_to_document_freqs ?s2) ''x''
      = Some (fmupd 2 (1 / 601) (fmupd 1 (1 / 600) fmempty))"
    using a2(4) by (simp add: x1 posting_of_def value_or_zero_def)
  have f2: "3 |\<notin>| fmdom (m_documents ?s2)" by (simp add: d2)
  note a3 = AddDocument_long_document [OF a2(2) f2, of 601 ACTUAL "[3]"]
  have d3: "m_documents ?s3 = fmupd 3 \<lparr>data_rating = 3, data_status = ACTUAL\<rparr>
      (fmupd 2 \<lparr>data_rating = 2, data_status = ACTUAL\<rparr>
      (fmupd 1 \<lparr>data_rating = 1, data_status = ACTUAL\<rparr> fmempty))"
    using a3(3) by (simp add: d2 ComputeAverageRating_single)
  have x3: "fmlookup (m_word_to_document_freqs ?s3) ''x''
      = Some (fmupd 3 (1 / 602) (fmupd 2 (1 / 601) (fmupd 1 (1 / 600) fmempty)))"
    using a3(4) by (simp add: x2 posting_of_def value_or_zero_def)
  have a4: "AddDocument ?s3 4 ''z'' ACTUAL [4] =
      (?s3\<lparr>m_word_to_document_freqs := add_freq 4 1 ''z'' (m_word_to_document_freqs ?s3),
            m_documents := fmupd 4 \<lparr>data_rating = 4, data_status = ACTUAL\<rparr> (m_documents ?s3),
            m_ids := m_ids ?s3 @ [4]\<rparr>, None)"
    by (simp add: AddDocument_cases [of ?s3] d3 a3(2) IsValidWord_def is_special_def
        SplitIntoWords_def IsStopWord_def ComputeAverageRating_single)
  have s4: "server_near_ties = ?s4"
    by (simp only: server_near_ties_def)
  show "m_stop_words server_near_ties = {||}"
    unfolding s4 a4 fst_conv by (simp add: a3(2))
  show "m_documents server_near_ties =
     fmupd 4 \<lparr>data_rating = 4, data_status = ACTUAL\<rparr>
       (fmupd 3 \<lparr>data_rating = 3, data_status = ACTUAL\<rparr>
         (fmupd 2 \<lparr>data_rating = 2, data_status = ACTUAL\<rparr>
           (fmupd 1 \<lparr>data_rating = 1, data_status = ACTUAL\<rparr> fmempty)))"
    unfolding s4 a4 fst_conv by (simp add: d3)
  show "fmlookup (m_word_to_document_freqs server_near_ties) ''x'' =
     Some (fmupd 3 (1 / 602) (fmupd 2 (1 / 601) (fmupd 1 (1 / 600) fmempty)))"
    unfolding s4 a4 fst_conv by (simp add: add_freq_lookup x3)
  have r1: "reachable ?s1"
    by (rule reachable_add [OF reachable_default, of 1 "long_document 599" ACTUAL "[1]"])
      (simp add: prod_eq_iff a1(1))
  have r2: "reachable ?s2"
    by (rule reachable_add [OF r1, of 2 "long_document 600" ACTUAL "[2]"])
      (simp add: prod_eq_iff a2(1))
  have r3: "reachable ?s3"
    by (rule reachable_add [OF r2, of 3 "long_document 601" ACTUAL "[3]"])
      (simp add: prod_eq_iff a3(1))
  have "reachable ?s4"
    by (rule reachable_add [OF r3, of 4 "''z''" ACTUAL "[4]"]) (simp add: a4)
  then show "reachable server_near_ties"
    by (simp only: s4)
qed



lemma ln_four_thirds_bounds: "1 / 4 \<le> ln (4 / 3 :: real)" "ln (4 / 3 :: real) \<le> 1 / 3"
proof -
  have "ln (3 / 4 :: real) \<le> 3 / 4 - 1"
    by (rule ln_le_minus_one) simp
  moreover have "ln (3 / 4 :: real) = - ln (4 / 3)"
    using ln_inverse [of "4 / 3 :: real"] by simp
  ultimately show "1 / 4 \<le> ln (4 / 3 :: real)" by simp
  have "ln (4 / 3 :: real) \<le> 4 / 3 - 1"
    by (rule ln_le_minus_one) simp
  then show "ln (4 / 3 :: real) \<le> 1 / 3" by simp
qed

lemma near_ties_found:
  "FindAllDocuments server_near_ties
     \<lparr>plus_words = {|''x''|}, minus_words = {||}, stop_words = {||}\<rparr>
     (\<lambda>document_id document_status rating. document_status = ACTUAL) =
   Inr [\<lparr>doc_id = 1, relevance = ln (4 / 3) / 600, rating = 1\<rparr>,
        \<lparr>doc_id = 2, relevance = ln (4 / 3) / 601, rating = 2\<rparr>,
        \<lparr>doc_id = 3, relevance = ln (4 / 3) / 602, rating = 3\<rparr>]"
  by (simp add: FindAllDocuments_def sorted_list_of_fset.rep_eq server_near_ties_facts
      ComputeWordInverseDocumentFreq_def GetDocumentCount_def fcard.rep_eq
      sorted_list_of_fmap_def add_relevance_def)

lemma near_ties_compare:
  "compare_documents \<lparr>doc_id = 2, relevance = ln (4 / 3) / 601, rating = 2\<rparr>
     \<lparr>doc_id = 1, relevance = ln (4 / 3) / 600, rating = 1\<rparr>"
  "compare_documents \<lparr>doc_id = 3, relevance = ln (4 / 3) / 602, rating = 3\<rparr>
     \<lparr>doc_id = 2, relevance = ln (4 / 3) / 601, rating = 2\<rparr>"
  using ln_four_thirds_bounds by (simp_all add: compare_documents_def EPSILON_def)

lemma near_ties_sorted:
  "std_sort compare_documents
     [\<lparr>doc_id = 1, relevance = ln (4 / 3) / 600, rating = 1\<rparr>,
      \<lparr>doc_id = 2, relevance = ln (4 / 3) / 601, rating = 2\<rparr>,
      \<lparr>doc_id = 3, relevance = ln (4 / 3) / 602, rating = 3\<rparr>] =
     [\<lparr>doc_id = 3, relevance = ln (4 / 3) / 602, rating = 3\<rparr>,
      \<lparr>doc_id = 2, relevance = ln (4 / 3) / 601, rating = 2\<rparr>,
      \<lparr>doc_id = 1, relevance = ln (4 / 3) / 600, rating = 1\<rparr>]"
  by (simp add: std_sort_def insertion_step_def near_ties_compare)

lemma compare_documents_asym: "compare_documents a b \<Longrightarrow> \<not> compare_documents b a"
  by (auto simp: compare_documents_def abs_minus_commute split: if_splits)

lemma in_order_iff: "in_order a b \<longleftrightarrow> \<not> compare_documents b a"
  by (auto simp: in_order_def close_relevance_def compare_documents_def abs_minus_commute
      EPSILON_def)

lemma in_order_trans:
  assumes "close_transitive ds" and "a \<in> set ds" and "b \<in> set ds" and "c \<in> set ds"
    and "in_order a b" and "in_order b c"
  shows "in_order a c"
proof -
  have sym: "close_relevance x y \<longleftrightarrow> close_relevance y x" for x y
    by (simp add: close_relevance_def abs_minus_commute)
  have tr: "close_relevance x y \<Longrightarrow> close_relevance y z \<Longrightarrow> close_relevance x z"
    if "x \<in> set ds" "y \<in> set ds" "z \<in> set ds" for x y z
    using assms(1) that unfolding close_transitive_def by blast
  consider (cc) "close_relevance a b" "close_relevance b c"
    | (cn) "close_relevance a b" "\<not> close_relevance b c"
    | (nc) "\<not> close_relevance a b" "close_relevance b c"
    | (nn) "\<not> close_relevance a b" "\<not> close_relevance b c"
    by blast
  then show ?thesis
  proof cases
    case cc
    then have "close_relevance a c" using tr [OF assms(2,3,4)] by simp
    then show ?thesis using cc assms(5,6) by (simp add: in_order_def)
  next
    case cn
    have "\<not> close_relevance a c"
    proof
      assume "close_relevance a c"
      then have "close_relevance b c"
        using tr [OF assms(3,2,4)] cn(1) sym [of a b] by simp
      with cn(2) show False by simp
    qed
    then show ?thesis
      using cn assms(5,6) by (auto simp: in_order_def close_relevance_def)
  next
    case nc
    have "\<not> close_relevance a c"
    proof
      assume "close_relevance a c"
      then have "close_relevance a b"
        using tr [OF assms(2,4,3)] nc(2) sym [of b c] by simp
      with nc(1) show False by simp
    qed
    then show ?thesis
      using nc assms(5,6) by (auto simp: in_order_def close_relevance_def)
  next
    case nn
    then show ?thesis
      using assms(5,6) by (auto simp: in_order_def close_relevance_def EPSILON_def)
  qed
qed

text \<open>The sorted prefix, held in reverse: no element precedes an earlier one.\<close>

lemma sorted_linear_insert:
  assumes asym: "\<And>a b. cmp a b \<Longrightarrow> \<not> cmp b a"
    and ntrans: "\<And>a b c. a \<in> S \<Longrightarrow> b \<in> S \<Longrightarrow> c \<in> S \<Longrightarrow> \<not> cmp a b \<Longrightarrow> \<not> cmp b c \<Longrightarrow> \<not> cmp a c"
  shows "val \<in> S \<Longrightarrow> set ys \<subseteq> S \<Longrightarrow> sorted_wrt (\<lambda>x y. \<not> cmp x y) ys \<Longrightarrow>
           sorted_wrt (\<lambda>x y. \<not> cmp x y) (linear_insert cmp val ys)"
proof (induction ys)
  case Nil
  then show ?case by simp
next
  case (Cons y ys)
  show ?case
  proof (cases "cmp val y")
    case True
    then have "\<not> cmp y val" by (rule asym)
    then show ?thesis
      using True Cons by (auto simp: set_linear_insert)
  next
    case False
    have "\<not> cmp val z" if "z \<in> set ys" for z
    proof -
      from that Cons.prems have "\<not> cmp y z" "z \<in> S" "y \<in> S" by auto
      with False Cons.prems(1) show ?thesis using ntrans [of val y z] by blast
    qed
    then show ?thesis
      using False Cons.prems by auto
  qed
qed

lemma sorted_insertion_step:
  assumes asym: "\<And>a b. cmp a b \<Longrightarrow> \<not> cmp b a"
    and ntrans: "\<And>a b c. a \<in> S \<Longrightarrow> b \<in> S \<Longrightarrow> c \<in> S \<Longrightarrow> \<not> cmp a b \<Longrightarrow> \<not> cmp b c \<Longrightarrow> \<not> cmp a c"
    and "val \<in> S" and "set ys \<subseteq> S" and "sorted_wrt (\<lambda>x y. \<not> cmp x y) ys"
  shows "sorted_wrt (\<lambda>x y. \<not> cmp x y) (insertion_step cmp ys val)"
proof (cases "ys \<noteq> [] \<and> cmp val (last ys)")
  case True
  then have ys: "ys = butlast ys @ [last ys]" by simp
  have last: "\<not> cmp (last ys) val" using True asym by blast
  have irrefl: "\<not> cmp (last ys) (last ys)" using asym by blast
  have "\<not> cmp x (last ys)" if "x \<in> set ys" for x
  proof -
    from that ys have "x \<in> set (butlast ys) \<or> x = last ys"
      by (metis Un_iff insert_iff list.set(2) set_append empty_iff empty_set)
    moreover have "sorted_wrt (\<lambda>x y. \<not> cmp x y) (butlast ys @ [last ys])"
      using assms(5) ys by simp
    ultimately show ?thesis
      using irrefl by (auto simp: sorted_wrt_append)
  qed
  moreover have "last ys \<in> S" using True assms(4) by auto
  ultimately have "\<not> cmp x val" if "x \<in> set ys" for x
    using that last assms(3,4) ntrans [of x "last ys" val] by blast
  then show ?thesis
    using True assms(5) by (simp add: insertion_step_def sorted_wrt_append)
next
  case False
  then show ?thesis
    using sorted_linear_insert [of cmp S val ys, OF asym ntrans] assms(3-5)
    by (auto simp: insertion_step_def)
qed

lemma sorted_foldl_insertion_step:
  assumes asym: "\<And>a b. cmp a b \<Longrightarrow> \<not> cmp b a"
    and ntrans: "\<And>a b c. a \<in> S \<Longrightarrow> b \<in> S \<Longrightarrow> c \<in> S \<Longrightarrow> \<not> cmp a b \<Longrightarrow> \<not> cmp b c \<Longrightarrow> \<not> cmp a c"
  shows "set xs \<subseteq> S \<Longrightarrow> set acc \<subseteq> S \<Longrightarrow> sorted_wrt (\<lambda>x y. \<not> cmp x y) acc \<Longrightarrow>
           sorted_wrt (\<lambda>x y. \<not> cmp x y) (foldl (insertion_step cmp) acc xs)"
proof (induction xs arbitrary: acc)
  case Nil
  then show ?case by simp
next
  case (Cons x xs)
  have "sorted_wrt (\<lambda>x y. \<not> cmp x y) (insertion_step cmp acc x)"
    using sorted_insertion_step [of cmp S x acc, OF asym ntrans] Cons.prems by simp
  moreover have "set (insertion_step cmp acc x) \<subseteq> S"
    using Cons.prems by (simp add: set_insertion_step)
  ultimately show ?case
    using Cons.IH [of "insertion_step cmp acc x"] Cons.prems by simp
qed

lemma sorted_std_sort:
  assumes "close_transitive ds"
  shows "sorted_wrt in_order (std_sort compare_documents ds)"
proof -
  have ntrans: "\<not> compare_documents a c"
    if "a \<in> set ds" "b \<in> set ds" "c \<in> set ds" "\<not> compare_documents a b" "\<not> compare_documents b c"
    for a b c
    using in_order_trans [OF assms that(3,2,1)] that(4,5) by (simp add: in_order_iff)
  have "sorted_wrt (\<lambda>x y. \<not> compare_documents x y) (foldl (insertion_step compare_documents) [] ds)"
  proof (rule sorted_foldl_insertion_step [where S = "set ds"])
    show "compare_documents a b \<Longrightarrow> \<not> compare_documents b a" for a b
      by (rule compare_documents_asym)
    show "a \<in> set ds \<Longrightarrow> b \<in> set ds \<Longrightarrow> c \<in> set ds \<Longrightarrow> \<not> compare_documents a b \<Longrightarrow>
        \<not> compare_documents b c \<Longrightarrow> \<not> compare_documents a c" for a b c
      by (rule ntrans)
  qed simp_all
  then show ?thesis
    by (simp add: std_sort_def sorted_wrt_rev in_order_iff [abs_def])
qed

text \<open>
  Claim C2, as stated, at a reachable server and the query \<^verbatim>\<open>x\<close>. The documents 1, 2 and 3
  hold \<^verbatim>\<open>x\<close> once among 600, 601 and 602 words and are rated 1, 2 and 3, so that the
  relevances of 1 and 2 and those of 2 and 3 differ by less than \<open>EPSILON\<close>, and those
  of 1 and 3 by more. The result lists 3, 2, 1: the document 3 comes before the document 1,
  whose relevance is larger by more than \<open>EPSILON\<close>. No other arrangement would do: 1
  may not precede 2, nor 2 precede 3, nor 3 precede 1.
\<close>

theorem near_ties_order_counterexample:
  "reachable server_near_ties \<and>
   FindTopDocuments_actual server_near_ties ''x'' =
     Inr [\<lparr>doc_id = 3, relevance = ln (4 / 3) / 602, rating = 3\<rparr>,
          \<lparr>doc_id = 2, relevance = ln (4 / 3) / 601, rating = 2\<rparr>,
          \<lparr>doc_id = 1, relevance = ln (4 / 3) / 600, rating = 1\<rparr>] \<and>
   \<not> \<bar>ln (4 / 3) / 602 - ln (4 / 3) / 600\<bar> < EPSILON \<and>
   ln (4 / 3) / 602 < ln (4 / 3) / (600 :: real) \<and>
   \<not> in_order \<lparr>doc_id = 1, relevance = ln (4 / 3) / 600, rating = 1\<rparr>
         \<lparr>doc_id = 2, relevance = ln (4 / 3) / 601, rating = 2\<rparr> \<and>
   \<not> in_order \<lparr>doc_id = 2, relevance = ln (4 / 3) / 601, rating = 2\<rparr>
         \<lparr>doc_id = 3, relevance = ln (4 / 3) / 602, rating = 3\<rparr> \<and>
   \<not> in_order \<lparr>doc_id = 3, relevance = ln (4 / 3) / 602, rating = 3\<rparr>
         \<lparr>doc_id = 1, relevance = ln (4 / 3) / 600, rating = 1\<rparr>"
proof -
  have parse: "ParseQuery server_near_ties ''x'' =
      Inr \<lparr>plus_words = {|''x''|}, minus_words = {||}, stop_words = {||}\<rparr>"
    by (simp add: ParseQuery_def SplitIntoWords_def ParseQueryWord_def IsStopWord_def
        IsValidWord_def is_special_def empty_Query_def server_near_ties_facts(2))
  have find: "FindTopDocuments_actual server_near_ties ''x'' =
     Inr [\<lparr>doc_id = 3, relevance = ln (4 / 3) / 602, rating = 3\<rparr>,
          \<lparr>doc_id = 2, relevance = ln (4 / 3) / 601, rating = 2\<rparr>,
          \<lparr>doc_id = 1, relevance = ln (4 / 3) / 600, rating = 1\<rparr>]"
    unfolding FindTopDocuments_actual_def FindTopDocuments_status_def FindTopDocuments_def
      parse
    by (simp add: IsValidWord_def is_special_def is_degenerate_def near_ties_found
        near_ties_sorted MAX_RESULT_DOCUMENT_COUNT_def)
  have order: "\<not> \<bar>ln (4 / 3) / 602 - ln (4 / 3) / 600\<bar> < EPSILON"
    "ln (4 / 3) / 602 < ln (4 / 3) / (600 :: real)"
    "\<not> in_order \<lparr>doc_id = 1, relevance = ln (4 / 3) / 600, rating = 1\<rparr>
         \<lparr>doc_id = 2, relevance = ln (4 / 3) / 601, rating = 2\<rparr>"
    "\<not> in_order \<lparr>doc_id = 2, relevance = ln (4 / 3) / 601, rating = 2\<rparr>
         \<lparr>doc_id = 3, relevance = ln (4 / 3) / 602, rating = 3\<rparr>"
    "\<not> in_order \<lparr>doc_id = 3, relevance = ln (4 / 3) / 602, rating = 3\<rparr>
         \<lparr>doc_id = 1, relevance = ln (4 / 3) / 600, rating = 1\<rparr>"
    using ln_four_thirds_bounds
    by (simp_all add: in_order_def close_relevance_def EPSILON_def)
  show ?thesis
    using server_near_ties_facts(1) find order by simp
qed

text \<open>
  Claim C2, amended: a result of \<^verbatim>\<open>FindTopDocuments\<close> has at most 5 entries; and when to
  differ by less than \<open>EPSILON\<close> is transitive on the relevances of the documents found
  for the query, of any two entries of the result the earlier one has, if their relevances
  differ by less than \<open>EPSILON\<close>, a rating that is not smaller, and otherwise the larger
  relevance.
\<close>

theorem result_bounded_and_ordered:
  "(FindTopDocuments s raw_query document_predicate = Inr result \<longrightarrow> length result \<le> 5) \<and>
   (FindTopDocuments s raw_query document_predicate = Inr result \<and>
      ParseQuery s raw_query = Inr query \<and>
      FindAllDocuments s query document_predicate = Inr found \<and> close_transitive found \<longrightarrow>
      sorted_wrt in_order result)"
proof (intro conjI impI)
  assume "FindTopDocuments s raw_query document_predicate = Inr result"
  then show "length result \<le> 5"
    by (auto simp: FindTopDocuments_def MAX_RESULT_DOCUMENT_COUNT_def
        split: if_splits sum.splits)
next
  assume a: "FindTopDocuments s raw_query document_predicate = Inr result \<and>
      ParseQuery s raw_query = Inr query \<and>
      FindAllDocuments s query document_predicate = Inr found \<and> close_transitive found"
  then have sorted: "sorted_wrt in_order (std_sort compare_documents found)"
    by (simp add: sorted_std_sort)
  then have "sorted_wrt in_order (take MAX_RESULT_DOCUMENT_COUNT (std_sort compare_documents found))"
    by (rule sorted_wrt_take)
  with sorted a show "sorted_wrt in_order result"
    by (auto simp: FindTopDocuments_def split: if_splits)
qed

text \<open>The amended claim at two documents of equal relevance: the one rated 7 comes before
  the one rated 1.\<close>

theorem result_bounded_and_ordered_witness:
  "FindTopDocuments server_cat_dog ''cat dog'' accept_all =
     Inr [\<lparr>doc_id = 2, relevance = ln 2, rating = 7\<rparr>,
          \<lparr>doc_id = 1, relevance = ln 2, rating = 1\<rparr>] \<and>
   ParseQuery server_cat_dog ''cat dog'' =
     Inr \<lparr>plus_words = {|''cat'', ''dog''|}, minus_words = {||}, stop_words = {||}\<rparr> \<and>
   FindAllDocuments server_cat_dog
     \<lparr>plus_words = {|''cat'', ''dog''|}, minus_words = {||}, stop_words = {||}\<rparr> accept_all =
     Inr [\<lparr>doc_id = 1, relevance = ln 2, rating = 1\<rparr>,
          \<lparr>doc_id = 2, relevance = ln 2, rating = 7\<rparr>] \<and>
   close_transitive [\<lparr>doc_id = 1, relevance = ln 2, rating = 1\<rparr>,
                     \<lparr>doc_id = 2, relevance = ln 2, rating = 7\<rparr>] \<and>
   sorted_wrt in_order [\<lparr>doc_id = 2, relevance = ln 2, rating = 7\<rparr>,
                        \<lparr>doc_id = 1, relevance = ln 2, rating = 1\<rparr>] \<and>
   length [\<lparr>doc_id = 2, relevance = ln 2, rating = 7\<rparr>,
           \<lparr>doc_id = 1, relevance = ln 2, rating = 1\<rparr>] \<le> 5"
proof -
  have parse: "ParseQuery server_cat_dog ''cat dog'' =
     Inr \<lparr>plus_words = {|''cat'', ''dog''|}, minus_words = {||}, stop_words = {||}\<rparr>"
    by (simp add: eval_query server_cat_dog_eq) blast
  have order: "sorted_list_of_set {''cat'', ''dog''} = [''cat'', ''dog'']"
    by simp
  have found: "FindAllDocuments server_cat_dog
     \<lparr>plus_words = {|''cat'', ''dog''|}, minus_words = {||}, stop_words = {||}\<rparr> accept_all =
     Inr [\<lparr>doc_id = 1, relevance = ln 2, rating = 1\<rparr>,
          \<lparr>doc_id = 2, relevance = ln 2, rating = 7\<rparr>]"
    by (simp add: eval_query server_cat_dog_eq order)
  have find: "FindTopDocuments server_cat_dog ''cat dog'' accept_all =
     Inr [\<lparr>doc_id = 2, relevance = ln 2, rating = 7\<rparr>,
          \<lparr>doc_id = 1, relevance = ln 2, rating = 1\<rparr>]"
    unfolding FindTopDocuments_def
    by (simp add: parse found IsValidWord_def is_special_def is_degenerate_def std_sort_def
        insertion_step_def compare_documents_def EPSILON_def MAX_RESULT_DOCUMENT_COUNT_def)
  have trans: "close_transitive [\<lparr>doc_id = 1, relevance = ln 2, rating = 1\<rparr>,
                     \<lparr>doc_id = 2, relevance = ln 2, rating = 7\<rparr>]"
    by (simp add: close_transitive_def close_relevance_def EPSILON_def)
  show ?thesis
    using result_bounded_and_ordered [of server_cat_dog "''cat dog''" accept_all
        "[\<lparr>doc_id = 2, relevance = ln 2, rating = 7\<rparr>, \<lparr>doc_id = 1, relevance = ln 2, rating = 1\<rparr>]"
        "\<lparr>plus_words = {|''cat'', ''dog''|}, minus_words = {||}, stop_words = {||}\<rparr>"
        "[\<lparr>doc_id = 1, relevance = ln 2, rating = 1\<rparr>, \<lparr>doc_id = 2, relevance = ln 2, rating = 7\<rparr>]"]
      parse found find trans
    by simp
qed

end
